theory Spec2Isabelle
  imports Complex_Main
begin

section \<open>The libpq client library, as PqRow.cpp and PqResult.cpp use it\<close>

text \<open>
  The status of a result, \<^verbatim>\<open>ExecStatusType\<close> of \<^verbatim>\<open>libpq-fe.h\<close>. In single-row mode
  each row arrives as one result of status \<open>PGRES_SINGLE_TUPLE\<close>, and a result of status
  \<open>PGRES_TUPLES_OK\<close> with no row follows the last one; a statement that returns no rows
  answers \<open>PGRES_COMMAND_OK\<close>.
\<close>

datatype ExecStatusType =
    PGRES_EMPTY_QUERY
  | PGRES_COMMAND_OK
  | PGRES_TUPLES_OK
  | PGRES_COPY_OUT
  | PGRES_COPY_IN
  | PGRES_BAD_RESPONSE
  | PGRES_NONFATAL_ERROR
  | PGRES_FATAL_ERROR
  | PGRES_COPY_BOTH
  | PGRES_SINGLE_TUPLE

text \<open>
  A \<^verbatim>\<open>PGresult\<close>: its status, the name and type \<^verbatim>\<open>Oid\<close> of each field, the number of
  parameters of a described statement, the fields of row 0 (\<open>None\<close> is SQL NULL, the
  text of a value otherwise) and the count of \<^verbatim>\<open>PQcmdTuples\<close>. A \<^verbatim>\<open>PGresult*\<close> is a
  \<open>PGresult option\<close>, \<open>None\<close> the null pointer.
\<close>

record PGresult =
  resultStatus :: ExecStatusType
  attDescs :: "(string \<times> nat) list"
  numParameters :: nat
  tuple0 :: "string option list"
  cmdTuples :: string

definition PQresultStatus :: "PGresult option \<Rightarrow> ExecStatusType" where
  \<comment> \<open>libpq answers \<open>PGRES_FATAL_ERROR\<close> for a null pointer\<close>
  "PQresultStatus res = (case res of None \<Rightarrow> PGRES_FATAL_ERROR | Some r \<Rightarrow> resultStatus r)"

definition PQnparams :: "PGresult option \<Rightarrow> int" where
  "PQnparams res = (case res of None \<Rightarrow> 0 | Some r \<Rightarrow> int (numParameters r))"

definition PQnfields :: "PGresult option \<Rightarrow> int" where
  "PQnfields res = (case res of None \<Rightarrow> 0 | Some r \<Rightarrow> int (length (attDescs r)))"

definition field_of :: "PGresult option \<Rightarrow> nat \<Rightarrow> string option option" where
  \<comment> \<open>field \<open>j\<close> of row 0: \<open>None\<close> when there is no such field\<close>
  "field_of res j =
     (case res of None \<Rightarrow> None
      | Some r \<Rightarrow> if j < length (tuple0 r) then Some (tuple0 r ! j) else None)"

definition PQgetisnull :: "PGresult option \<Rightarrow> nat \<Rightarrow> bool" where
  \<comment> \<open>row 0; libpq answers 1 for a field out of range\<close>
  "PQgetisnull res j = (case field_of res j of Some (Some v) \<Rightarrow> False | _ \<Rightarrow> True)"

definition PQgetvalue :: "PGresult option \<Rightarrow> nat \<Rightarrow> string" where
  \<comment> \<open>row 0; the empty string for a null field. For a field out of range libpq answers a
      null pointer: every accessor of \<open>PqRow\<close> but \<open>get_raw\<close> tests \<open>is_null\<close> first, which
      is true there, and \<open>get_raw\<close> copies \<open>PQgetlength = 0\<close> bytes from it, so the empty
      string stands for it.\<close>
  "PQgetvalue res j = (case field_of res j of Some (Some v) \<Rightarrow> v | _ \<Rightarrow> [])"

definition PQgetlength :: "PGresult option \<Rightarrow> nat \<Rightarrow> nat" where
  "PQgetlength res j = (case field_of res j of Some (Some v) \<Rightarrow> length v | _ \<Rightarrow> 0)"

definition PQcmdTuples :: "PGresult option \<Rightarrow> string" where
  "PQcmdTuples res = (case res of None \<Rightarrow> [] | Some r \<Rightarrow> cmdTuples r)"

definition PQfname :: "PGresult option \<Rightarrow> nat \<Rightarrow> string" where
  "PQfname res i =
     (case res of None \<Rightarrow> []
      | Some r \<Rightarrow> if i < length (attDescs r) then fst (attDescs r ! i) else [])"

definition PQftype :: "PGresult option \<Rightarrow> nat \<Rightarrow> nat" where
  \<comment> \<open>\<open>InvalidOid = 0\<close> for a field out of range\<close>
  "PQftype res i =
     (case res of None \<Rightarrow> 0
      | Some r \<Rightarrow> if i < length (attDescs r) then snd (attDescs r ! i) else 0)"

text \<open>
  A connection \<^verbatim>\<open>PGconn\<close>. The server's side is a script the connection carries: what it
  answers to a prepare, to a describe, to one direct execution, whether a query can be
  sent and what results then arrive. The client's side is the queue \<open>pending\<close> of results
  that \<^verbatim>\<open>PQgetResult\<close> has still to deliver, the log \<open>executed\<close> of the parameter rows
  handed to \<^verbatim>\<open>PQexecPrepared\<close>, and the text of \<^verbatim>\<open>PQerrorMessage\<close>.

  A query that has been sent is in progress until \<^verbatim>\<open>PQgetResult\<close> has answered the
  null pointer: only then is the connection idle, and only an idle connection takes
  another \<^verbatim>\<open>PQsendQueryPrepared\<close>. The blocking functions \<^verbatim>\<open>PQprepare\<close>,
  \<^verbatim>\<open>PQdescribePrepared\<close> and \<^verbatim>\<open>PQexecPrepared\<close> first discard what an earlier query has
  left, and leave the connection idle.
\<close>

record PGconn =
  prepare_reply :: "string \<Rightarrow> PGresult option"
  describe_reply :: "PGresult option"
  exec_reply :: "string list \<Rightarrow> PGresult option"
  send_reply :: "string option list \<Rightarrow> PGresult list option"
  single_row_reply :: bool
  pending :: "PGresult list"
  in_progress :: bool
  executed :: "string list list"
  errorMessage :: string

definition PQgetResult :: "PGconn \<Rightarrow> PGresult option \<times> PGconn" where
  \<comment> \<open>the next result, or the null pointer when none is left\<close>
  "PQgetResult c =
     (case pending c of
        [] \<Rightarrow> (None, c\<lparr>in_progress := False\<rparr>)
      | u # us \<Rightarrow> (Some u, c\<lparr>pending := us\<rparr>))"

definition PQprepare :: "PGconn \<Rightarrow> string \<Rightarrow> PGresult option \<times> PGconn" where
  "PQprepare c sql = (prepare_reply c sql, c\<lparr>pending := [], in_progress := False\<rparr>)"

definition PQdescribePrepared :: "PGconn \<Rightarrow> PGresult option \<times> PGconn" where
  "PQdescribePrepared c = (describe_reply c, c\<lparr>pending := [], in_progress := False\<rparr>)"

definition PQexecPrepared :: "PGconn \<Rightarrow> string list \<Rightarrow> PGresult option \<times> PGconn" where
  "PQexecPrepared c ps =
     (exec_reply c ps, c\<lparr>pending := [], in_progress := False, executed := executed c @ [ps]\<rparr>)"

definition PQsendQueryPrepared :: "PGconn \<Rightarrow> string option list \<Rightarrow> bool \<times> PGconn" where
  \<comment> \<open>a parameter \<open>None\<close> is the null pointer, SQL NULL\<close>
  "PQsendQueryPrepared c ps =
     (if in_progress c then (False, c)
      else case send_reply c ps of
        None \<Rightarrow> (False, c)
      | Some rs \<Rightarrow> (True, c\<lparr>pending := rs, in_progress := True\<rparr>))"

definition PQsetSingleRowMode :: "PGconn \<Rightarrow> bool" where
  "PQsetSingleRowMode c = single_row_reply c"

section \<open>The host: C library and R runtime\<close>

text \<open>
  The functions of the C library that the decoders call and the arithmetic of
  \<^verbatim>\<open>double\<close> are parameters, gathered in one record; the type \<open>'d\<close> stands for
  \<^verbatim>\<open>double\<close>. \<open>interrupt_pending\<close> says whether \<^verbatim>\<open>checkUserInterrupt\<close> finds an
  interrupt. \<^verbatim>\<open>struct tm\<close> has the seven fields that \<^verbatim>\<open>timegm\<close> and \<^verbatim>\<open>mktime\<close> read.
\<close>

record tm =
  tm_sec :: int
  tm_min :: int
  tm_hour :: int
  tm_mday :: int
  tm_mon :: int
  tm_year :: int
  tm_isdst :: int

record 'd host =
  NA_REAL :: 'd
  atoi :: "string \<Rightarrow> int"
  atof :: "string \<Rightarrow> 'd"
  strtod :: "string \<Rightarrow> 'd"
  timegm :: "tm \<Rightarrow> int"
  mktime :: "tm \<Rightarrow> int"
  dbl_of_int :: "int \<Rightarrow> 'd"
  int_of_dbl :: "'d \<Rightarrow> int"
  dbl_add :: "'d \<Rightarrow> 'd \<Rightarrow> 'd"
  dbl_sub :: "'d \<Rightarrow> 'd \<Rightarrow> 'd"
  dbl_div :: "'d \<Rightarrow> 'd \<Rightarrow> 'd"
  interrupt_pending :: bool

definition INT_MAX :: int where
  "INT_MAX = 2147483647"

definition NA_INTEGER :: int where
  \<comment> \<open>R's missing integer is \<^verbatim>\<open>INT_MIN\<close>\<close>
  "NA_INTEGER = - 2147483648"

definition NA_LOGICAL :: int where
  "NA_LOGICAL = - 2147483648"

text \<open>
  The R values that the accessors build: the missing string \<^verbatim>\<open>NA_STRING\<close>, a string
  made by \<^verbatim>\<open>Rf_mkCharCE\<close>, and a raw vector with its bytes. An element of a column of the
  output is unwritten, or holds what \<^verbatim>\<open>set_list_value\<close> stored through \<^verbatim>\<open>LOGICAL\<close>,
  \<^verbatim>\<open>INTEGER\<close>, \<^verbatim>\<open>REAL\<close>, \<^verbatim>\<open>SET_VECTOR_ELT\<close> or \<^verbatim>\<open>SET_STRING_ELT\<close>.
\<close>

datatype SEXP = NA_STRING | CHARSXP string | RAWSXP string

datatype 'd cell =
    Unwritten
  | LOGICAL int
  | INTEGER int
  | REAL 'd
  | VECTOR_ELT SEXP
  | STRING_ELT SEXP

text \<open>
  What a call can throw. Each constructor is one \<^verbatim>\<open>stop\<close> of the source:
  \<open>ConnectionError\<close> from \<^verbatim>\<open>check_connection\<close>;
  \<open>QueryError m\<close> is \<^verbatim>\<open>stop(PQerrorMessage(conn))\<close>;
  \<open>QueryErrorRow m k\<close> is \<^verbatim>\<open>stop("%s (row %i)", ...)\<close> of \<^verbatim>\<open>bind_rows\<close>;
  \<open>SendError\<close> is "Failed to send query";
  \<open>SingleRowModeError\<close> is "Failed to set single row mode";
  \<open>ArityError n k\<close> is "Query requires %i params; %i supplied.";
  \<open>BindingError\<close> is "Query needs to be bound before fetching";
  \<open>StaleResultError\<close> is "Inactive result set";
  \<open>ProtocolError\<close> is "No active query";
  \<open>InterruptedError\<close> is the interrupt that \<^verbatim>\<open>checkUserInterrupt\<close> raises.
  \<open>UndefinedBehaviour\<close> is no exception: it marks a step where the C++ reads or writes
  out of bounds, follows a null pointer or overflows an \<^verbatim>\<open>int\<close>, after which nothing is
  known of the program.
\<close>

datatype error =
    ConnectionError
  | QueryError string
  | QueryErrorRow string int
  | SendError
  | SingleRowModeError
  | ArityError int int
  | BindingError
  | StaleResultError
  | ProtocolError
  | InterruptedError
  | UndefinedBehaviour

text \<open>
  Modelled from the spec: the enumeration \<^verbatim>\<open>PGTypes\<close>, declared in a header that is not
  among the sources. The spec's DecodedType is a closed enumeration of Integer, Real,
  String, Logical, RawBytes, Date, Timestamp, TimestampTZ and Time-of-day; the names are
  those the two source files use.
\<close>

datatype PGTypes =
    PGString
  | PGInt
  | PGReal
  | PGVector
  | PGLogical
  | PGDate
  | PGDatetime
  | PGDatetimeTZ
  | PGTime

section \<open>PqRow.cpp\<close>

text \<open>Members are written without the underscore that ends their names in the C++.\<close>

record PqRow =
  pRes :: "PGresult option"

text \<open>
  The loop of the constructor that pulls results until \<^verbatim>\<open>PQgetResult\<close> answers the null
  pointer; \<open>next\<close> is the result pulled last.
\<close>

function drain :: "PGresult option \<Rightarrow> PGconn \<Rightarrow> PGconn" where
  "drain next c =
     (case next of
        None \<Rightarrow> c
      | Some u \<Rightarrow> (case PQgetResult c of (next', c') \<Rightarrow> drain next' c'))"
  by pat_completeness auto
termination
  by (relation "measure (\<lambda>(next, c). length (pending c) + (case next of None \<Rightarrow> 0 | Some u \<Rightarrow> 1))")
     (auto simp: PQgetResult_def split: list.splits)

declare drain.simps [simp del]

lemma drain_None [simp]: "drain None c = c"
  by (subst drain.simps) simp

lemma drain_Some: "drain (Some u) c = (case PQgetResult c of (n', c') \<Rightarrow> drain n' c')"
  by (subst drain.simps) simp

text \<open>
  The body of the constructor for a connection that is not the null pointer: the result
  and the state of the connection afterwards. A \<^verbatim>\<open>stop\<close> leaves the connection as the
  calls before it made it.
\<close>

definition PqRow_pull :: "PGconn \<Rightarrow> (error + PqRow) \<times> PGconn" where
  "PqRow_pull c =
     (case PQgetResult c of (res, c1) \<Rightarrow>
        let c2 = (if PQresultStatus res = PGRES_TUPLES_OK
                  then (case PQgetResult c1 of (next, c') \<Rightarrow> drain next c')
                  else c1)
        in if res = None then (Inl ProtocolError, c2)
           else if PQresultStatus res = PGRES_FATAL_ERROR
             then (Inl (QueryError (errorMessage c2)), c2)
           else (Inr \<lparr>pRes = res\<rparr>, c2))"

text \<open>
  The constructor. For the null pointer it returns at once and leaves \<open>pRes\<close> as it
  was, not initialised: the model leaves it unspecified.
\<close>

definition PqRow_ctor :: "PGconn option \<Rightarrow> (error + PqRow) \<times> PGconn option" where
  "PqRow_ctor conn =
     (case conn of
        None \<Rightarrow> (Inr \<lparr>pRes = undefined\<rparr>, None)
      | Some c \<Rightarrow> (case PqRow_pull c of (x, c') \<Rightarrow> (x, Some c')))"

definition status :: "PqRow \<Rightarrow> ExecStatusType" where
  "status row = PQresultStatus (pRes row)"

definition has_data :: "PqRow \<Rightarrow> bool" where
  "has_data row = (status row = PGRES_SINGLE_TUPLE)"

definition n_rows_affected :: "'d host \<Rightarrow> PqRow \<Rightarrow> int" where
  "n_rows_affected h row = atoi h (PQcmdTuples (pRes row))"

definition is_null :: "PqRow \<Rightarrow> nat \<Rightarrow> bool" where
  "is_null row j = PQgetisnull (pRes row) j"

definition get_int :: "'d host \<Rightarrow> PqRow \<Rightarrow> nat \<Rightarrow> int" where
  "get_int h row j = (if is_null row j then NA_INTEGER else atoi h (PQgetvalue (pRes row) j))"

definition get_double :: "'d host \<Rightarrow> PqRow \<Rightarrow> nat \<Rightarrow> 'd" where
  "get_double h row j = (if is_null row j then NA_REAL h else atof h (PQgetvalue (pRes row) j))"

definition get_string :: "PqRow \<Rightarrow> nat \<Rightarrow> SEXP" where
  "get_string row j = (if is_null row j then NA_STRING else CHARSXP (PQgetvalue (pRes row) j))"

definition get_raw :: "PqRow \<Rightarrow> nat \<Rightarrow> SEXP" where
  \<comment> \<open>\<^verbatim>\<open>memcpy\<close> of \<open>size\<close> bytes of the value\<close>
  "get_raw row j =
     (let size = PQgetlength (pRes row) j;
          blob = PQgetvalue (pRes row) j
      in RAWSXP (take size blob))"

text \<open>
  The temporal accessors read the text by position. \<open>digit val k\<close> is \<^verbatim>\<open>val[k] - 0x30\<close>;
  a \<^verbatim>\<open>char\<close> is signed, and the byte at \<open>length val\<close> is the terminating zero. Reading
  further is out of bounds, so each accessor first asks for the length that its last
  read needs.
\<close>

definition c_char :: "char \<Rightarrow> int" where
  "c_char ch = (let n = int (of_char ch) in if n < 128 then n else n - 256)"

definition digit :: "string \<Rightarrow> nat \<Rightarrow> int" where
  "digit val k = (if k < length val then c_char (val ! k) else 0) - 48"

definition get_date :: "'d host \<Rightarrow> PqRow \<Rightarrow> nat \<Rightarrow> error + 'd" where
  "get_date h row j =
     (if is_null row j then Inr (NA_REAL h)
      else let val = PQgetvalue (pRes row) j in
        if length val < 9 then Inl UndefinedBehaviour
        else
          let date = \<lparr>tm_sec = 0, tm_min = 0, tm_hour = 0,
                 tm_mday = digit val 8 * 10 + digit val 9,
                 tm_mon = 10 * digit val 5 + (digit val 6 - 1),
                 tm_year = ((digit val 0 * 10 + digit val 1) * 10 + digit val 2) * 10
                             + (digit val 3 - 1900),
                 tm_isdst = - 1\<rparr>
          in Inr (dbl_div h (dbl_of_int h (timegm h date)) (dbl_of_int h (24 * 60 * 60))))"

definition datetime_tm :: "'d host \<Rightarrow> string \<Rightarrow> tm" where
  \<comment> \<open>the \<^verbatim>\<open>struct tm\<close> that \<open>get_datetime\<close> fills in\<close>
  "datetime_tm h val =
     \<lparr>tm_sec = int_of_dbl h (strtod h (drop 17 val)),
      tm_min = digit val 14 * 10 + digit val 15,
      tm_hour = digit val 11 * 10 + digit val 12,
      tm_mday = digit val 8 * 10 + digit val 9,
      tm_mon = digit val 5 * 10 + (digit val 6 - 1),
      tm_year = ((digit val 0 * 10 + digit val 1) * 10 + digit val 2) * 10
                  + (digit val 3 - 1900),
      tm_isdst = - 1\<rparr>"

definition get_datetime :: "'d host \<Rightarrow> PqRow \<Rightarrow> nat \<Rightarrow> bool \<Rightarrow> error + 'd" where
  "get_datetime h row j use_local =
     (if is_null row j then Inr (NA_REAL h)
      else let val = PQgetvalue (pRes row) j in
        if length val < 17 then Inl UndefinedBehaviour
        else
          let sec = strtod h (drop 17 val);
              date = datetime_tm h val
          in if use_local
             then Inr (dbl_add h (dbl_of_int h (mktime h date))
                                 (dbl_sub h sec (dbl_of_int h (tm_sec date))))
             else Inr (dbl_add h (dbl_of_int h (timegm h date))
                                 (dbl_sub h sec (dbl_of_int h (tm_sec date)))))"

definition get_time :: "'d host \<Rightarrow> PqRow \<Rightarrow> nat \<Rightarrow> error + 'd" where
  "get_time h row j =
     (if is_null row j then Inr (NA_REAL h)
      else let val = PQgetvalue (pRes row) j in
        if length val < 6 then Inl UndefinedBehaviour
        else
          let hour = digit val 0 * 10 + digit val 1;
              min = digit val 3 * 10 + digit val 4;
              sec = strtod h (drop 6 val)
          in Inr (dbl_add h (dbl_of_int h (hour * 3600 + min * 60)) sec))"

definition get_logical :: "PqRow \<Rightarrow> nat \<Rightarrow> int" where
  "get_logical row j =
     (if is_null row j then NA_LOGICAL
      else if PQgetvalue (pRes row) j = ''t'' then 1 else 0)"

text \<open>
  \<open>set_list_value\<close> stores the value of field \<open>j\<close> at index \<open>i\<close> of the column \<open>x\<close>. An
  index past the end of \<open>types\<close> or of \<open>x\<close> is out of bounds in the C++.
\<close>

definition store :: "'d cell list \<Rightarrow> nat \<Rightarrow> error + 'd \<Rightarrow> error + 'd cell list" where
  "store x i v = (case v of Inl e \<Rightarrow> Inl e | Inr d \<Rightarrow> Inr (x[i := REAL d]))"

definition set_list_value ::
  "'d host \<Rightarrow> PqRow \<Rightarrow> 'd cell list \<Rightarrow> nat \<Rightarrow> nat \<Rightarrow> PGTypes list \<Rightarrow> error + 'd cell list"
where
  "set_list_value h row x i j types =
     (if length types \<le> j \<or> length x \<le> i then Inl UndefinedBehaviour
      else case types ! j of
        PGLogical \<Rightarrow> Inr (x[i := LOGICAL (get_logical row j)])
      | PGInt \<Rightarrow> Inr (x[i := INTEGER (get_int h row j)])
      | PGReal \<Rightarrow> Inr (x[i := REAL (get_double h row j)])
      | PGVector \<Rightarrow> Inr (x[i := VECTOR_ELT (get_raw row j)])
      | PGString \<Rightarrow> Inr (x[i := STRING_ELT (get_string row j)])
      | PGDate \<Rightarrow> store x i (get_date h row j)
      | PGDatetimeTZ \<Rightarrow> store x i (get_datetime h row j False)
      | PGDatetime \<Rightarrow> store x i (get_datetime h row j True)
      | PGTime \<Rightarrow> store x i (get_time h row j))"

section \<open>The collaborators of PqResult.cpp\<close>

text \<open>
  Modelled from the spec: the class \<^verbatim>\<open>PqConnection\<close>, which is not among the sources. The
  spec gives it a handle on which the libpq primitives run, a check that it is usable
  (ConnectionError otherwise) and a slot for the one current result, with
  \<open>registerCurrentResult(self)\<close> and \<open>clearCurrentResult()\<close>. A result is known to it by
  its address, a number here. The handle of a connection is never the null pointer.
\<close>

record PqConnection =
  conn :: PGconn
  usable :: bool
  pCurrentResult :: "nat option"

definition check_connection :: "PqConnection \<Rightarrow> error + unit" where
  "check_connection pc = (if usable pc then Inr () else Inl ConnectionError)"

definition set_current_result :: "PqConnection \<Rightarrow> nat option \<Rightarrow> PqConnection" where
  "set_current_result pc p = pc\<lparr>pCurrentResult := p\<rparr>"

definition is_current_result :: "PqConnection \<Rightarrow> nat \<Rightarrow> bool" where
  "is_current_result pc p = (pCurrentResult pc = Some p)"

text \<open>
  Modelled from the spec: the output table and its helpers \<^verbatim>\<open>df_create\<close> and
  \<^verbatim>\<open>df_resize\<close>, which are not among the sources. The spec's ColumnBuffer is created
  with a type tag and an initial capacity, grown, and indexed for writes. A table has one
  column per type, its names, the number of rows of its \<^verbatim>\<open>row.names\<close> and, for each
  column, the attributes that \<open>fetch\<close> attaches. A resize keeps the elements below the new
  length and leaves new elements unwritten.
\<close>

record 'd data_frame =
  columns :: "'d cell list list"
  col_names :: "string list"
  row_names :: int
  col_attr :: "(string \<times> string list) list list"

definition df_create :: "PGTypes list \<Rightarrow> string list \<Rightarrow> int \<Rightarrow> 'd data_frame" where
  "df_create tys nms n =
     \<lparr>columns = map (\<lambda>t. replicate (nat n) Unwritten) tys,
      col_names = nms,
      row_names = n,
      col_attr = map (\<lambda>t. []) tys\<rparr>"

definition lengthgets :: "'d cell list \<Rightarrow> nat \<Rightarrow> 'd cell list" where
  "lengthgets x n = take n x @ replicate (n - length x) Unwritten"

definition df_resize :: "'d data_frame \<Rightarrow> int \<Rightarrow> 'd data_frame" where
  "df_resize df n = df\<lparr>columns := map (\<lambda>x. lengthgets x (nat n)) (columns df), row_names := n\<rparr>"

section \<open>PqResult.cpp\<close>

text \<open>
  A warning of \<^verbatim>\<open>get_column_types\<close>: "Unknown field type (%s) in column %s", with the
  type and the name of the column.
\<close>

datatype warning = UnknownFieldType nat string

text \<open>
  The members of a result; \<open>this\<close> is its address. A parameter list of R is a list of
  character vectors, whose elements are strings or the missing string \<open>None\<close>.
\<close>

record PqResult =
  this :: nat
  pSpec :: "PGresult option"
  nrows :: int
  bound :: bool
  nparams :: int
  ncols :: int
  names :: "string list"
  types :: "PGTypes list"
  pNextRow :: "PqRow option"

type_synonym rlist = "string option list list"

definition bind0 ::
  "PqResult \<Rightarrow> PqConnection \<Rightarrow> (error + unit) \<times> PqResult \<times> PqConnection" where
  \<comment> \<open>\<^verbatim>\<open>bind()\<close>, which sets \<open>bound\<close> before it sends\<close>
  "bind0 r pc =
     (let r1 = r\<lparr>bound := True\<rparr> in
      case PQsendQueryPrepared (conn pc) [] of (ok, c1) \<Rightarrow>
        if \<not> ok then (Inl SendError, r1, pc\<lparr>conn := c1\<rparr>)
        else if \<not> PQsetSingleRowMode c1 then (Inl SingleRowModeError, r1, pc\<lparr>conn := c1\<rparr>)
        else (Inr (), r1, pc\<lparr>conn := c1\<rparr>))"

definition first_elements :: "rlist \<Rightarrow> string option list option" where
  \<comment> \<open>\<^verbatim>\<open>param[0]\<close> of each vector; \<open>None\<close> when one of them is empty\<close>
  "first_elements params =
     those (map (\<lambda>param. case param of [] \<Rightarrow> None | x # xs \<Rightarrow> Some x) params)"

definition bind ::
  "PqResult \<Rightarrow> PqConnection \<Rightarrow> rlist \<Rightarrow> (error + unit) \<times> PqResult \<times> PqConnection" where
  \<comment> \<open>\<^verbatim>\<open>bind(List params)\<close>\<close>
  "bind r pc params =
     (if int (length params) \<noteq> nparams r
      then (Inl (ArityError (nparams r) (int (length params))), r, pc)
      else case first_elements params of
        None \<Rightarrow> (Inl UndefinedBehaviour, r, pc)
      | Some c_params \<Rightarrow>
          (case PQsendQueryPrepared (conn pc) c_params of (ok, c1) \<Rightarrow>
             if \<not> ok then (Inl SendError, r, pc\<lparr>conn := c1\<rparr>)
             else if \<not> PQsetSingleRowMode c1 then (Inl SingleRowModeError, r, pc\<lparr>conn := c1\<rparr>)
             else (Inr (), r\<lparr>bound := True\<rparr>, pc\<lparr>conn := c1\<rparr>)))"

definition row_params :: "rlist \<Rightarrow> nat \<Rightarrow> string list option" where
  \<comment> \<open>\<^verbatim>\<open>as<std::string>(param[i])\<close> of each vector, which turns the missing string into
      the text NA; \<open>None\<close> when \<open>i\<close> is past the end of one of them\<close>
  "row_params params i =
     those (map (\<lambda>param. if i < length param
                          then Some (case param ! i of None \<Rightarrow> ''NA'' | Some s \<Rightarrow> s)
                          else None) params)"

function bind_rows_loop ::
  "'d host \<Rightarrow> rlist \<Rightarrow> nat \<Rightarrow> nat \<Rightarrow> PGconn \<Rightarrow> (error + unit) \<times> PGconn" where
  "bind_rows_loop h params n i c =
     (if i < n then
        if i mod 1000 = 0 \<and> interrupt_pending h then (Inl InterruptedError, c)
        else (case row_params params i of
                None \<Rightarrow> (Inl UndefinedBehaviour, c)
              | Some c_params \<Rightarrow>
                  (case PQexecPrepared c c_params of (res, c') \<Rightarrow>
                     if PQresultStatus res \<noteq> PGRES_COMMAND_OK
                     then (Inl (QueryErrorRow (errorMessage c') (int i + 1)), c')
                     else bind_rows_loop h params n (i + 1) c'))
      else (Inr (), c))"
  by pat_completeness auto
termination
  by (relation "measure (\<lambda>(h, params, n, i, c). n - i)") auto

declare bind_rows_loop.simps [simp del]

definition bind_rows ::
  "'d host \<Rightarrow> PqResult \<Rightarrow> PqConnection \<Rightarrow> rlist \<Rightarrow> (error + unit) \<times> PqResult \<times> PqConnection"
where
  \<comment> \<open>\<open>n\<close> is the length of the first vector; with no vector at all, \<^verbatim>\<open>params[0]\<close> is
      out of bounds. No member of the result is assigned.\<close>
  "bind_rows h r pc params =
     (if int (length params) \<noteq> nparams r
      then (Inl (ArityError (nparams r) (int (length params))), r, pc)
      else case params of
        [] \<Rightarrow> (Inl UndefinedBehaviour, r, pc)
      | p0 # ps \<Rightarrow>
          (case bind_rows_loop h params (length p0) 0 (conn pc) of
             (x, c') \<Rightarrow> (x, r, pc\<lparr>conn := c'\<rparr>)))"

definition active :: "PqResult \<Rightarrow> PqConnection \<Rightarrow> bool" where
  "active r pc = is_current_result pc (this r)"

definition fetch_row ::
  "PqResult \<Rightarrow> PqConnection \<Rightarrow> (error + unit) \<times> PqResult \<times> PqConnection" where
  \<comment> \<open>the handle is not null, so the constructor of the row is its body \<open>PqRow_pull\<close>\<close>
  "fetch_row r pc =
     (case PqRow_pull (conn pc) of
        (Inl e, c') \<Rightarrow> (Inl e, r, pc\<lparr>conn := c'\<rparr>)
      | (Inr row, c') \<Rightarrow>
          (Inr (), r\<lparr>pNextRow := Some row, nrows := nrows r + 1\<rparr>, pc\<lparr>conn := c'\<rparr>))"

definition fetch_row_if_needed ::
  "PqResult \<Rightarrow> PqConnection \<Rightarrow> (error + unit) \<times> PqResult \<times> PqConnection" where
  "fetch_row_if_needed r pc =
     (if pNextRow r \<noteq> None then (Inr (), r, pc) else fetch_row r pc)"


text \<open>
  A row that \<open>fetch_row\<close> has built took at least one result from the queue: the loop
  of \<open>fetch\<close> ends.
\<close>

lemma drain_pending: "length (pending (drain nxt c)) \<le> length (pending c)"
proof (induction nxt c rule: drain.induct)
  case (1 nxt c)
  show ?case
  proof (cases nxt)
    case None
    then show ?thesis by simp
  next
    case (Some u)
    show ?thesis
    proof (cases "pending c")
      case Nil
      with Some show ?thesis by (simp add: drain_Some PQgetResult_def)
    next
      case (Cons v vs)
      with Some 1 [of u "Some v" "c\<lparr>pending := vs\<rparr>"]
      show ?thesis by (simp add: drain_Some PQgetResult_def)
    qed
  qed
qed

lemma pull_drain_pending:
  "length (pending (case PQgetResult c of (nxt, c') \<Rightarrow> drain nxt c')) \<le> length (pending c)"
proof (cases "pending c")
  case Nil
  then show ?thesis by (simp add: PQgetResult_def)
next
  case (Cons v vs)
  with drain_pending [of "Some v" "c\<lparr>pending := vs\<rparr>"] show ?thesis
    by (simp add: PQgetResult_def)
qed

lemma PqRow_pull_pending:
  assumes "PqRow_pull c = (Inr row, c')"
  shows "length (pending c') < length (pending c)"
proof (cases "pending c")
  case Nil
  with assms show ?thesis
    by (simp add: PqRow_pull_def PQgetResult_def PQresultStatus_def Let_def)
next
  case (Cons u us)
  define c1 where "c1 = c\<lparr>pending := us\<rparr>"
  have g: "PQgetResult c = (Some u, c1)"
    using Cons by (simp add: PQgetResult_def c1_def)
  have "c' = (if resultStatus u = PGRES_TUPLES_OK
              then (case PQgetResult c1 of (nxt, c') \<Rightarrow> drain nxt c') else c1)"
    using assms g by (simp add: PqRow_pull_def PQresultStatus_def Let_def split: if_splits)
  moreover have "length (pending c1) = length us"
    by (simp add: c1_def)
  ultimately show ?thesis
    using pull_drain_pending [of c1] Cons by (simp split: if_splits)
qed

lemma fetch_row_pending:
  assumes "fetch_row r pc = (Inr u, r', pc')"
  shows "length (pending (conn pc')) < length (pending (conn pc))"
proof -
  obtain x c' where p: "PqRow_pull (conn pc) = (x, c')"
    by (cases "PqRow_pull (conn pc)")
  with assms obtain row where "x = Inr row" "pc' = pc\<lparr>conn := c'\<rparr>"
    by (cases x) (auto simp: fetch_row_def)
  with p PqRow_pull_pending [of "conn pc" row c'] show ?thesis by simp
qed

text \<open>The inner loop of \<open>fetch\<close>: field \<open>j\<close> of the row goes to index \<open>i\<close> of column \<open>j\<close>.\<close>

fun set_row ::
  "'d host \<Rightarrow> PqRow \<Rightarrow> PGTypes list \<Rightarrow> nat \<Rightarrow> nat list \<Rightarrow> 'd cell list list
     \<Rightarrow> error + 'd cell list list" where
  "set_row h row tys i [] cols = Inr cols"
| "set_row h row tys i (j # js) cols =
     (if length cols \<le> j then Inl UndefinedBehaviour
      else case set_list_value h row (cols ! j) i j tys of
        Inl e \<Rightarrow> Inl e
      | Inr x \<Rightarrow> set_row h row tys i js (cols[j := x]))"

text \<open>
  The \<^verbatim>\<open>while\<close> loop of \<open>fetch\<close>, with the local variables \<open>i\<close>, \<open>n\<close> and \<open>out\<close>; it
  returns them as the loop leaves them. Doubling \<open>n\<close> past \<^verbatim>\<open>INT_MAX\<close> overflows.
\<close>

function fetch_loop ::
  "'d host \<Rightarrow> int \<Rightarrow> int \<Rightarrow> int \<Rightarrow> 'd data_frame \<Rightarrow> PqResult \<Rightarrow> PqConnection
     \<Rightarrow> (error + int \<times> int \<times> 'd data_frame) \<times> PqResult \<times> PqConnection" where
  "fetch_loop h n_max i n out r pc =
     (case pNextRow r of
        None \<Rightarrow> (Inl UndefinedBehaviour, r, pc)
      | Some row \<Rightarrow>
          if \<not> has_data row then (Inr (i, n, out), r, pc)
          else if n \<le> i \<and> \<not> n_max < 0 then (Inr (i, n, out), r, pc)
          else if n \<le> i \<and> INT_MAX < n * 2 then (Inl UndefinedBehaviour, r, pc)
          else
            let n' = (if n \<le> i then n * 2 else n);
                out' = (if n \<le> i then df_resize out n' else out)
            in (case set_row h row (types r) (nat i) [0..<nat (ncols r)] (columns out') of
                  Inl e \<Rightarrow> (Inl e, r, pc)
                | Inr cols \<Rightarrow>
                    (case fetch_row r pc of
                       (Inl e, r', pc') \<Rightarrow> (Inl e, r', pc')
                     | (Inr u, r', pc') \<Rightarrow>
                         if (i + 1) mod 1000 = 0 \<and> interrupt_pending h
                         then (Inl InterruptedError, r', pc')
                         else fetch_loop h n_max (i + 1) n' (out'\<lparr>columns := cols\<rparr>) r' pc')))"
  by pat_completeness auto
termination
  by (relation "measure (\<lambda>(h, n_max, i, n, out, r, pc). length (pending (conn pc)))")
     (auto dest: fetch_row_pending [OF sym])

declare fetch_loop.simps [simp del]

definition class_attr :: "PGTypes \<Rightarrow> (string \<times> string list) list" where
  "class_attr t =
     (case t of
        PGDate \<Rightarrow> [(''class'', [''Date''])]
      | PGDatetime \<Rightarrow> [(''class'', [''POSIXct'', ''POSIXt''])]
      | PGDatetimeTZ \<Rightarrow> [(''class'', [''POSIXct'', ''POSIXt''])]
      | PGTime \<Rightarrow> [(''class'', [''hms'', ''difftime'']), (''units'', [''secs''])]
      | _ \<Rightarrow> [])"

definition fetch ::
  "'d host \<Rightarrow> PqResult \<Rightarrow> PqConnection \<Rightarrow> int
     \<Rightarrow> (error + 'd data_frame) \<times> PqResult \<times> PqConnection" where
  "fetch h r pc n_max =
     (if \<not> bound r then (Inl BindingError, r, pc)
      else if \<not> active r pc then (Inl StaleResultError, r, pc)
      else
        let n = (if n_max < 0 then 100 else n_max);
            out = df_create (types r) (names r) n
        in case fetch_row_if_needed r pc of
             (Inl e, r1, pc1) \<Rightarrow> (Inl e, r1, pc1)
           | (Inr u, r1, pc1) \<Rightarrow>
               (case fetch_loop h n_max 0 n out r1 pc1 of
                  (Inl e, r2, pc2) \<Rightarrow> (Inl e, r2, pc2)
                | (Inr (i, n', out'), r2, pc2) \<Rightarrow>
                    let out2 = (if i < n' then df_resize out' i else out')
                    in (Inr (out2\<lparr>col_attr :=
                               map (\<lambda>k. class_attr (types r2 ! k)) [0..<length (columns out2)]\<rparr>),
                        r2, pc2)))"

definition n_rows_fetched :: "PqResult \<Rightarrow> int" where
  "n_rows_fetched r = nrows r - (if pNextRow r \<noteq> None then 1 else 0)"

definition is_complete ::
  "PqResult \<Rightarrow> PqConnection \<Rightarrow> (error + bool) \<times> PqResult \<times> PqConnection" where
  "is_complete r pc =
     (case fetch_row_if_needed r pc of
        (Inl e, r', pc') \<Rightarrow> (Inl e, r', pc')
      | (Inr u, r', pc') \<Rightarrow>
          (case pNextRow r' of
             None \<Rightarrow> (Inl UndefinedBehaviour, r', pc')
           | Some row \<Rightarrow> (Inr (\<not> has_data row), r', pc')))"

definition get_column_names :: "PqResult \<Rightarrow> string list" where
  "get_column_names r = map (\<lambda>i. PQfname (pSpec r) i) [0..<nat (ncols r)]"

text \<open>
  The \<^verbatim>\<open>switch\<close> of \<open>get_column_types\<close> on the type of a field: \<open>None\<close> is its
  \<^verbatim>\<open>default\<close> branch.
\<close>

definition oid_type :: "nat \<Rightarrow> PGTypes option" where
  "oid_type t =
     (if t = 20 \<or> t = 21 \<or> t = 23 \<or> t = 26 then Some PGInt
      else if t = 1700 \<or> t = 701 \<or> t = 700 \<or> t = 790 then Some PGReal
      else if t = 18 \<or> t = 19 \<or> t = 25 \<or> t = 114 \<or> t = 1042 \<or> t = 1043 then Some PGString
      else if t = 1082 then Some PGDate
      else if t = 1083 \<or> t = 1266 then Some PGTime
      else if t = 1114 then Some PGDatetime
      else if t = 1184 then Some PGDatetimeTZ
      else if t = 1186 \<or> t = 3802 \<or> t = 2950 then Some PGString
      else if t = 16 then Some PGLogical
      else if t = 17 \<or> t = 2278 then Some PGVector
      else None)"

definition type_or_string :: "nat \<Rightarrow> PGTypes" where
  \<comment> \<open>the type that \<open>get_column_types\<close> gives a field of type \<open>t\<close>\<close>
  "type_or_string t = (case oid_type t of Some ty \<Rightarrow> ty | None \<Rightarrow> PGString)"

definition column_type_step ::
  "PGresult option \<Rightarrow> nat \<Rightarrow> PGTypes list \<times> warning list \<Rightarrow> PGTypes list \<times> warning list"
where
  \<comment> \<open>one turn of the loop of \<open>get_column_types\<close>\<close>
  "column_type_step spec i acc =
     (case acc of (tys, ws) \<Rightarrow>
        (case oid_type (PQftype spec i) of
           Some t \<Rightarrow> (tys @ [t], ws)
         | None \<Rightarrow> (tys @ [PGString],
                    ws @ [UnknownFieldType (PQftype spec i) (PQfname spec i)])))"

definition get_column_types :: "PqResult \<Rightarrow> PGTypes list \<times> warning list" where
  \<comment> \<open>the types, and the warnings raised on the way\<close>
  "get_column_types r = fold (column_type_step (pSpec r)) [0..<nat (ncols r)] ([], [])"

text \<open>
  The constructor: \<open>ctor_try\<close> is the block under \<^verbatim>\<open>try\<close>, run once the result is
  registered. The members that the C++ has not yet assigned hold a placeholder; each is
  assigned before it is read.
\<close>

definition ctor_try ::
  "nat \<Rightarrow> PqConnection \<Rightarrow> string \<Rightarrow> (error + PqResult) \<times> PqConnection" where
  "ctor_try self pc sql =
     (let r0 = \<lparr>this = self, pSpec = None, nrows = 0, bound = False, nparams = 0,
                ncols = 0, names = [], types = [], pNextRow = None\<rparr> in
      case PQprepare (conn pc) sql of (prep, c1) \<Rightarrow>
        if PQresultStatus prep \<noteq> PGRES_COMMAND_OK
        then (Inl (QueryError (errorMessage c1)), pc\<lparr>conn := c1\<rparr>)
        else case PQdescribePrepared c1 of (spec, c2) \<Rightarrow>
          if PQresultStatus spec \<noteq> PGRES_COMMAND_OK
          then (Inl (QueryError (errorMessage c2)), pc\<lparr>conn := c2\<rparr>)
          else
            let r1 = r0\<lparr>pSpec := spec, nparams := PQnparams spec\<rparr> in
            if nparams r1 = 0
            then (case bind0 r1 (pc\<lparr>conn := c2\<rparr>) of
                    (Inl e, r2, pc2) \<Rightarrow> (Inl e, pc2)
                  | (Inr u, r2, pc2) \<Rightarrow> (Inr r2, pc2))
            else (Inr r1, pc\<lparr>conn := c2\<rparr>))"

definition PqResult_ctor ::
  "nat \<Rightarrow> PqConnection \<Rightarrow> string \<Rightarrow> (error + PqResult \<times> warning list) \<times> PqConnection" where
  "PqResult_ctor self pc sql =
     (case check_connection pc of
        Inl e \<Rightarrow> (Inl e, pc)
      | Inr u \<Rightarrow>
          (case ctor_try self (set_current_result pc (Some self)) sql of
             (Inl e, pc') \<Rightarrow> (Inl e, set_current_result pc' None)
           | (Inr r, pc') \<Rightarrow>
               let r2 = r\<lparr>ncols := PQnfields (pSpec r)\<rparr>;
                   r3 = r2\<lparr>names := get_column_names r2\<rparr>
               in case get_column_types r3 of
                    (tys, ws) \<Rightarrow> (Inr (r3\<lparr>types := tys\<rparr>, ws), pc')))"

section \<open>What fetch returns\<close>

text \<open>
  The value that \<open>set_list_value\<close> stores for field \<open>j\<close> of a result: what it writes
  into a column of one element. A result is decodable when it has such a value for every
  column, that is when no temporal text is too short to be read; \<open>row_cells\<close> are then
  the values of its fields, in the order of the columns.
\<close>

definition cell_value :: "'d host \<Rightarrow> PGTypes list \<Rightarrow> PGresult \<Rightarrow> nat \<Rightarrow> error + 'd cell" where
  "cell_value h tys u j =
     (case set_list_value h \<lparr>pRes = Some u\<rparr> [Unwritten] 0 j tys of
        Inl e \<Rightarrow> Inl e
      | Inr x \<Rightarrow> Inr (x ! 0))"

definition decodable :: "'d host \<Rightarrow> PGTypes list \<Rightarrow> PGresult \<Rightarrow> bool" where
  "decodable h tys u =
     list_all (\<lambda>j. case cell_value h tys u j of Inl e \<Rightarrow> False | Inr v \<Rightarrow> True) [0..<length tys]"

definition row_cells :: "'d host \<Rightarrow> PGTypes list \<Rightarrow> PGresult \<Rightarrow> 'd cell list" where
  "row_cells h tys u =
     map (\<lambda>j. case cell_value h tys u j of Inl e \<Rightarrow> Unwritten | Inr v \<Rightarrow> v) [0..<length tys]"

text \<open>
  The columns of a table of \<open>p\<close> columns and capacity \<open>n\<close> into which the rows \<open>rows\<close>
  have been written from index 0: column \<open>j\<close> holds the \<open>j\<close>-th value of each row, then
  unwritten elements up to the capacity.
\<close>

definition table :: "nat \<Rightarrow> nat \<Rightarrow> 'd cell list list \<Rightarrow> 'd cell list list" where
  "table p n rows =
     map (\<lambda>j. map (\<lambda>rw. rw ! j) rows @ replicate (n - length rows) Unwritten) [0..<p]"

text \<open>
  The state of a stream in single-row mode: \<open>us\<close> are the results with a row that
  \<open>fetch\<close> has not yet returned, \<open>t\<close> is the result that ends the stream and \<open>rest\<close>
  what the server sends after it. Without a lookahead row all of them are in the queue;
  with one, the lookahead row is the first of \<open>us\<close>, or the end \<open>t\<close> when no row is left.
\<close>

definition is_row :: "PGresult \<Rightarrow> bool" where
  "is_row u = (resultStatus u = PGRES_SINGLE_TUPLE)"

definition is_end :: "PGresult \<Rightarrow> bool" where
  "is_end u = (resultStatus u \<noteq> PGRES_SINGLE_TUPLE \<and> resultStatus u \<noteq> PGRES_FATAL_ERROR)"

definition stream_state ::
  "PqResult \<Rightarrow> PqConnection \<Rightarrow> PGresult list \<Rightarrow> PGresult \<Rightarrow> PGresult list \<Rightarrow> bool" where
  "stream_state r pc us t rest =
     (list_all is_row us \<and> is_end t \<and>
      (case pNextRow r of
         None \<Rightarrow> pending (conn pc) = us @ t # rest
       | Some row \<Rightarrow>
           (case us of
              [] \<Rightarrow> row = \<lparr>pRes = Some t\<rparr>
            | u # us' \<Rightarrow> row = \<lparr>pRes = Some u\<rparr> \<and> pending (conn pc) = us' @ t # rest)))"

text \<open>
  The capacity \<open>n\<close> after \<open>k\<close> more rows are written from index \<open>i\<close>, when a full buffer
  is doubled.
\<close>

fun grown :: "int \<Rightarrow> int \<Rightarrow> nat \<Rightarrow> int" where
  "grown i n 0 = n"
| "grown i n (Suc k) = grown (i + 1) (if n \<le> i then n * 2 else n) k"



section \<open>A reference host and sample data\<close>

text \<open>
  A host on which the theorems below are run: decimal \<open>atoi\<close> and \<open>strtod\<close>, the
  proleptic Gregorian \<open>timegm\<close>, a \<open>mktime\<close> for a zone that is \<open>offset\<close> seconds east
  of Greenwich, and the rationals for \<^verbatim>\<open>double\<close>.
\<close>

fun leading_digits :: "string \<Rightarrow> string \<times> string" where
  "leading_digits [] = ([], [])"
| "leading_digits (ch # s) =
     (if (48::nat) \<le> of_char ch \<and> of_char ch \<le> (57::nat)
      then (case leading_digits s of (ds, rest) \<Rightarrow> (ch # ds, rest))
      else ([], ch # s))"

definition decimal :: "string \<Rightarrow> nat" where
  "decimal ds = foldl (\<lambda>a ch. 10 * a + (of_char ch - 48)) 0 ds"

definition ref_atoi :: "string \<Rightarrow> int" where
  "ref_atoi s =
     (case s of
        [] \<Rightarrow> 0
      | ch # t \<Rightarrow> if ch = CHR ''-'' then - int (decimal (fst (leading_digits t)))
                 else int (decimal (fst (leading_digits s))))"

definition ref_strtod :: "string \<Rightarrow> rat" where
  "ref_strtod s =
     (case leading_digits s of (ip, rest) \<Rightarrow>
        (case rest of
           [] \<Rightarrow> of_nat (decimal ip)
         | ch # t \<Rightarrow>
             if ch = CHR ''.''
             then (let fp = fst (leading_digits t)
                   in of_nat (decimal ip) + of_nat (decimal fp) / 10 ^ length fp)
             else of_nat (decimal ip)))"

definition days_from_civil :: "int \<Rightarrow> int \<Rightarrow> int \<Rightarrow> int" where
  "days_from_civil y m d =
     (let y' = (if m \<le> 2 then y - 1 else y);
          era = y' div 400;
          yoe = y' mod 400;
          doy = (153 * (if 2 < m then m - 3 else m + 9) + 2) div 5 + d - 1;
          doe = yoe * 365 + yoe div 4 - yoe div 100 + doy
      in era * 146097 + doe - 719468)"

definition ref_timegm :: "tm \<Rightarrow> int" where
  "ref_timegm t =
     days_from_civil (tm_year t + 1900) (tm_mon t + 1) (tm_mday t) * 86400
       + tm_hour t * 3600 + tm_min t * 60 + tm_sec t"

definition ref_host :: "int \<Rightarrow> rat host" where
  "ref_host offset =
     \<lparr>NA_REAL = - 1, atoi = ref_atoi, atof = ref_strtod, strtod = ref_strtod,
      timegm = ref_timegm, mktime = (\<lambda>t. ref_timegm t - offset),
      dbl_of_int = of_int, int_of_dbl = (\<lambda>x. if 0 \<le> x then \<lfloor>x\<rfloor> else \<lceil>x\<rceil>),
      dbl_add = (+), dbl_sub = (-), dbl_div = (/), interrupt_pending = False\<rparr>"

text \<open>
  A result with the given status and fields of row 0; the description of a statement
  with \<open>k\<close> parameters and four columns, two of them of a type outside the table (600
  and 601, under one name); a connection on which a statement prepares unless its text
  is empty; and a result object at address 7.
\<close>

definition unit_of :: "ExecStatusType \<Rightarrow> string option list \<Rightarrow> PGresult" where
  "unit_of st vs =
     \<lparr>resultStatus = st, attDescs = [], numParameters = 0, tuple0 = vs, cmdTuples = ''1''\<rparr>"

definition sample_spec :: "nat \<Rightarrow> PGresult" where
  "sample_spec k =
     \<lparr>resultStatus = PGRES_COMMAND_OK,
      attDescs = [(''id'', 23), (''geom'', 600), (''at'', 1184), (''geom'', 601)],
      numParameters = k, tuple0 = [], cmdTuples = []\<rparr>"

definition sample_conn :: "nat \<Rightarrow> PGresult list \<Rightarrow> PGconn" where
  "sample_conn k us =
     \<lparr>prepare_reply = (\<lambda>sql. if sql = [] then None else Some (unit_of PGRES_COMMAND_OK [])),
      describe_reply = Some (sample_spec k),
      exec_reply = (\<lambda>ps. Some (unit_of PGRES_COMMAND_OK [])),
      send_reply = (\<lambda>ps. Some [unit_of PGRES_TUPLES_OK []]),
      single_row_reply = True,
      pending = us,
      in_progress = (us \<noteq> []),
      executed = [],
      errorMessage = ''syntax error''\<rparr>"

definition sample_connection :: "nat \<Rightarrow> PGresult list \<Rightarrow> PqConnection" where
  "sample_connection k us = \<lparr>conn = sample_conn k us, usable = True, pCurrentResult = Some 7\<rparr>"

definition sample_result :: "bool \<Rightarrow> PqResult" where
  "sample_result b =
     \<lparr>this = 7, pSpec = Some (sample_spec 2), nrows = 0, bound = b, nparams = 2, ncols = 4,
      names = [''id'', ''geom'', ''at'', ''geom''],
      types = [PGInt, PGString, PGDatetimeTZ, PGString], pNextRow = None\<rparr>"

text \<open>A result with a row of four fields, the first of them \<open>s\<close>.\<close>

definition sample_row :: "string \<Rightarrow> PGresult" where
  "sample_row s =
     unit_of PGRES_SINGLE_TUPLE [Some s, None, Some ''2024-03-15 10:30:07.25+02'', Some ''x'']"

section \<open>Null fields\<close>

text \<open>
  Every accessor but \<open>get_raw\<close> answers the missing value of its type for a null field.
\<close>

lemma null_decodes_to_sentinel:
  assumes "is_null row j"
  shows "get_int h row j = NA_INTEGER" and "get_double h row j = NA_REAL h"
    and "get_string row j = NA_STRING" and "get_logical row j = NA_LOGICAL"
    and "get_date h row j = Inr (NA_REAL h)" and "get_datetime h row j l = Inr (NA_REAL h)"
    and "get_time h row j = Inr (NA_REAL h)"
  using assms
  by (simp_all add: get_int_def get_double_def get_string_def get_logical_def get_date_def
      get_datetime_def get_time_def)

text \<open>
  Claim C1 says that a null field decodes to the missing value of the column's type,
  for every type. For a column of raw bytes the code does otherwise: \<open>get_raw\<close> does
  not test \<open>is_null\<close>, and a null field becomes a raw vector of length 0, a value that
  is present and is the one an empty, non-null field gives.
\<close>

theorem get_raw_of_null_is_empty_vector:
  assumes "is_null row j" and "j < length tys" and "tys ! j = PGVector" and "i < length x"
  shows "set_list_value h row x i j tys = Inr (x[i := VECTOR_ELT (RAWSXP [])])"
proof -
  have "PQgetlength (pRes row) j = 0"
    using assms(1) by (auto simp: is_null_def PQgetisnull_def PQgetlength_def split: option.splits)
  then have "get_raw row j = RAWSXP []"
    by (simp add: get_raw_def)
  with assms show ?thesis
    by (simp add: set_list_value_def)
qed

theorem get_raw_of_null_is_empty_vector_witness:
  "set_list_value (ref_host 0) \<lparr>pRes = Some (unit_of PGRES_SINGLE_TUPLE [None])\<rparr>
       [Unwritten] 0 0 [PGVector] = Inr [VECTOR_ELT (RAWSXP [])]
   \<and> set_list_value (ref_host 0) \<lparr>pRes = Some (unit_of PGRES_SINGLE_TUPLE [Some []])\<rparr>
       [Unwritten] 0 0 [PGVector] = Inr [VECTOR_ELT (RAWSXP [])]"
proof -
  have "is_null \<lparr>pRes = Some (unit_of PGRES_SINGLE_TUPLE [None])\<rparr> 0"
    by (simp add: is_null_def PQgetisnull_def field_of_def unit_of_def)
  from get_raw_of_null_is_empty_vector [OF this, of "[PGVector]" 0 "[Unwritten]" "ref_host 0"]
  show ?thesis
    by (simp add: set_list_value_def get_raw_def PQgetlength_def PQgetvalue_def field_of_def
        unit_of_def)
qed

section \<open>The constructor of a row\<close>

lemma pull_drain_empties:
  "(case PQgetResult c of (nxt, c') \<Rightarrow> drain nxt c') = c\<lparr>pending := [], in_progress := False\<rparr>"
proof (induction "pending c" arbitrary: c)
  case Nil
  then show ?case by (simp add: PQgetResult_def)
next
  case (Cons v vs)
  from Cons(2) [symmetric] Cons(1) [of "c\<lparr>pending := vs\<rparr>"] show ?case
    by (simp add: PQgetResult_def drain_Some)
qed

text \<open>
  Claim C2, as amended: when the result that the constructor pulls has the status
  \<open>PGRES_TUPLES_OK\<close>, by which libpq says that all rows are delivered, the constructor
  pulls and discards every further result until \<^verbatim>\<open>PQgetResult\<close> answers the null
  pointer: the queue is empty and the connection is idle, ready for the next query.
\<close>

theorem PqRow_ctor_drains:
  assumes "pending c = u # rest" and "resultStatus u = PGRES_TUPLES_OK"
  shows "PqRow_ctor (Some c) = (Inr \<lparr>pRes = Some u\<rparr>, Some (c\<lparr>pending := [], in_progress := False\<rparr>))"
proof -
  have "PQgetResult c = (Some u, c\<lparr>pending := rest\<rparr>)"
    using assms by (simp add: PQgetResult_def)
  then show ?thesis
    using assms pull_drain_empties [of "c\<lparr>pending := rest\<rparr>"]
    by (simp add: PqRow_ctor_def PqRow_pull_def PQresultStatus_def)
qed

theorem PqRow_ctor_drains_witness:
  "PqRow_ctor (Some (sample_conn 0 [unit_of PGRES_TUPLES_OK []]))
     = (Inr \<lparr>pRes = Some (unit_of PGRES_TUPLES_OK [])\<rparr>, Some (sample_conn 0 []))
   \<and> PqRow_ctor (Some (sample_conn 0 [unit_of PGRES_TUPLES_OK [], unit_of PGRES_COMMAND_OK []]))
     = (Inr \<lparr>pRes = Some (unit_of PGRES_TUPLES_OK [])\<rparr>, Some (sample_conn 0 []))"
  using PqRow_ctor_drains [of "sample_conn 0 [unit_of PGRES_TUPLES_OK []]"
      "unit_of PGRES_TUPLES_OK []" "[]"]
    PqRow_ctor_drains [of "sample_conn 0 [unit_of PGRES_TUPLES_OK [], unit_of PGRES_COMMAND_OK []]"
      "unit_of PGRES_TUPLES_OK []" "[unit_of PGRES_COMMAND_OK []]"]
  by (simp add: sample_conn_def unit_of_def)

text \<open>
  As claim C2 states it, the same holds after any terminal result without a row. A
  result of status \<open>PGRES_COMMAND_OK\<close>, which ends a statement that returns no rows
  and carries its count of affected rows, is kept without a further \<^verbatim>\<open>PQgetResult\<close>:
  the null pointer that ends the results is not pulled, the query stays in progress,
  and the connection refuses the next \<^verbatim>\<open>PQsendQueryPrepared\<close>.
\<close>

theorem PqRow_ctor_command_ok_counterexample:
  "PqRow_ctor (Some (sample_conn 0 [unit_of PGRES_COMMAND_OK []]))
     = (Inr \<lparr>pRes = Some (unit_of PGRES_COMMAND_OK [])\<rparr>,
        Some ((sample_conn 0 [])\<lparr>in_progress := True\<rparr>))
   \<and> fst (PQsendQueryPrepared ((sample_conn 0 [])\<lparr>in_progress := True\<rparr>) []) = False"
  by (simp add: PqRow_ctor_def PqRow_pull_def PQresultStatus_def PQgetResult_def
      PQsendQueryPrepared_def sample_conn_def unit_of_def)

section \<open>Binding rows\<close>

text \<open>
  Claim C3, as amended: \<open>bind_rows\<close> fails with the arity error when the number of
  parameter columns is not the number of parameters of the statement, and then nothing
  has been sent: the result and the connection are as before.
\<close>

theorem bind_rows_arity:
  assumes "int (length params) \<noteq> nparams r"
  shows "bind_rows h r pc params = (Inl (ArityError (nparams r) (int (length params))), r, pc)"
  using assms by (simp add: bind_rows_def)

theorem bind_rows_arity_witness:
  "bind_rows (ref_host 0) (sample_result False) (sample_connection 2 []) [[Some ''a'', Some ''b'']]
   = (Inl (ArityError 2 1), sample_result False, sample_connection 2 [])"
  using bind_rows_arity [of "[[Some ''a'', Some ''b'']]" "sample_result False" "ref_host 0"
      "sample_connection 2 []"]
  by (simp add: sample_result_def)

text \<open>
  As claim C3 states it, columns of different lengths are refused. The code compares no
  lengths: with columns of 2 and 3 elements it runs the statement twice, once for each
  element of the first column, and returns.
\<close>

theorem bind_rows_unequal_columns_counterexample:
  "bind_rows (ref_host 0) (sample_result False) (sample_connection 2 [])
      [[Some ''a'', Some ''b''], [Some ''x'', Some ''y'', Some ''z'']]
   = (Inr (), sample_result False,
      (sample_connection 2 [])\<lparr>conn := (sample_conn 2 [])\<lparr>executed := [[''a'', ''x''], [''b'', ''y'']]\<rparr>\<rparr>)"
  by (simp add: bind_rows_def bind_rows_loop.simps row_params_def PQexecPrepared_def
      PQresultStatus_def sample_result_def sample_connection_def sample_conn_def unit_of_def
      ref_host_def)

section \<open>The checks of fetch\<close>

text \<open>
  Claim C6: \<open>fetch\<close> on a result that is not bound fails with the binding error, and
  \<open>fetch\<close> on a bound result that is not the current result of its connection fails
  with the stale-result error; the binding is tested first. Both failures leave the
  result and the connection as they were: nothing is sent or pulled.
\<close>

theorem fetch_checks_first:
  "(\<not> bound r \<longrightarrow> fetch h r pc n_max = (Inl BindingError, r, pc))
   \<and> (bound r \<and> \<not> active r pc \<longrightarrow> fetch h r pc n_max = (Inl StaleResultError, r, pc))"
  by (simp add: fetch_def)

theorem fetch_checks_first_witness:
  "fetch (ref_host 0) (sample_result False) (sample_connection 2 []) 10
     = (Inl BindingError, sample_result False, sample_connection 2 [])
   \<and> fetch (ref_host 0) (sample_result True) ((sample_connection 2 [])\<lparr>pCurrentResult := Some 8\<rparr>) 10
     = (Inl StaleResultError, sample_result True, (sample_connection 2 [])\<lparr>pCurrentResult := Some 8\<rparr>)"
  using fetch_checks_first [of "sample_result False" "ref_host 0" "sample_connection 2 []" 10]
    fetch_checks_first [of "sample_result True" "ref_host 0"
      "(sample_connection 2 [])\<lparr>pCurrentResult := Some 8\<rparr>" 10]
  by (simp add: sample_result_def sample_connection_def active_def is_current_result_def)

section \<open>The constructor of a result\<close>

text \<open>
  Claim C9: when the constructor fails after it has registered the result, that is on
  a usable connection, at the prepare, at the describe or at the automatic bind, the
  slot for the current result is empty when the error leaves the constructor. When the
  connection is not usable the result was never registered and the connection is
  untouched.
\<close>

theorem ctor_failure_deregisters:
  assumes "PqResult_ctor self pc sql = (Inl e, pc')"
  shows "(usable pc \<longrightarrow> pCurrentResult pc' = None) \<and> (\<not> usable pc \<longrightarrow> pc' = pc)"
  using assms
  by (auto simp: PqResult_ctor_def check_connection_def set_current_result_def Let_def
      split: prod.splits sum.splits)

lemma sample_ctor_fails:
  "PqResult_ctor 8 (sample_connection 0 []) [] =
     (Inl (QueryError ''syntax error''), (sample_connection 0 [])\<lparr>pCurrentResult := None\<rparr>)"
  by (simp add: PqResult_ctor_def check_connection_def set_current_result_def ctor_try_def
      PQprepare_def PQresultStatus_def sample_connection_def sample_conn_def)

theorem ctor_failure_deregisters_witness:
  "PqResult_ctor 8 (sample_connection 0 []) [] =
     (Inl (QueryError ''syntax error''), (sample_connection 0 [])\<lparr>pCurrentResult := None\<rparr>)
   \<and> pCurrentResult ((sample_connection 0 [])\<lparr>pCurrentResult := None\<rparr>) = None"
  using ctor_failure_deregisters [OF sample_ctor_fails] sample_ctor_fails
  by (simp add: sample_connection_def)


lemma ctor_try_unbound:
  assumes "ctor_try self pc sql = (Inr r, pc')" and "nparams r \<noteq> 0"
  shows "\<not> bound r"
  using assms
  by (auto simp: ctor_try_def Let_def bind0_def split: prod.splits if_splits sum.splits)

lemma ctor_unbound:
  assumes "PqResult_ctor self pc sql = (Inr (r, ws), pc')" and "nparams r \<noteq> 0"
  shows "\<not> bound r"
proof -
  from assms(1) obtain r0 pc0 where t: "ctor_try self (set_current_result pc (Some self)) sql = (Inr r0, pc0)"
    and r: "bound r = bound r0" "nparams r = nparams r0"
    by (auto simp: PqResult_ctor_def Let_def split: sum.splits prod.splits)
  from ctor_try_unbound [OF t] assms(2) r show ?thesis by simp
qed

lemma sample_ctor_succeeds:
  "PqResult_ctor 7 (sample_connection 2 []) ''INSERT'' =
     (Inr (sample_result False, [UnknownFieldType 600 ''geom'', UnknownFieldType 601 ''geom'']),
      sample_connection 2 [])"
  by (simp add: PqResult_ctor_def check_connection_def set_current_result_def ctor_try_def
      PQprepare_def PQdescribePrepared_def PQresultStatus_def PQnparams_def PQnfields_def
      get_column_names_def get_column_types_def column_type_step_def oid_type_def
      PQfname_def PQftype_def Let_def upt_rec
      sample_connection_def sample_conn_def sample_spec_def sample_result_def unit_of_def)

lemma sample_bind_rows:
  "bind_rows (ref_host 0) (sample_result False) (sample_connection 2 []) [[Some ''1''], [None]] =
     (Inr (), sample_result False,
      (sample_connection 2 [])\<lparr>conn := (sample_conn 2 [])\<lparr>executed := [[''1'', ''NA'']]\<rparr>\<rparr>)"
  by (simp add: bind_rows_def bind_rows_loop.simps row_params_def PQexecPrepared_def
      PQresultStatus_def sample_result_def sample_connection_def sample_conn_def unit_of_def
      ref_host_def)

text \<open>
  Claim C10: \<open>bind_rows\<close> never sets \<open>bound\<close>. After the construction of a result for
  a statement with parameters and a call of \<open>bind_rows\<close>, however it ends, the result is
  as the constructor left it, and \<open>fetch\<close> fails with the binding error.
\<close>

theorem bind_rows_leaves_unbound:
  assumes "PqResult_ctor self pc sql = (Inr (r, ws), pc1)" and "0 < nparams r"
    and "bind_rows h r pc1 params = (x, r2, pc2)"
  shows "r2 = r \<and> \<not> bound r2 \<and> fetch h r2 pc2 n_max = (Inl BindingError, r2, pc2)"
proof -
  have "\<not> bound r"
    using ctor_unbound [OF assms(1)] assms(2) by simp
  moreover have "r2 = r"
    using assms(3) by (auto simp: bind_rows_def split: if_splits list.splits prod.splits)
  ultimately show ?thesis
    by (simp add: fetch_def)
qed

theorem bind_rows_leaves_unbound_witness:
  "PqResult_ctor 7 (sample_connection 2 []) ''INSERT'' =
     (Inr (sample_result False, [UnknownFieldType 600 ''geom'', UnknownFieldType 601 ''geom'']),
      sample_connection 2 [])
   \<and> bind_rows (ref_host 0) (sample_result False) (sample_connection 2 []) [[Some ''1''], [None]] =
     (Inr (), sample_result False,
      (sample_connection 2 [])\<lparr>conn := (sample_conn 2 [])\<lparr>executed := [[''1'', ''NA'']]\<rparr>\<rparr>)
   \<and> fetch (ref_host 0) (sample_result False)
       ((sample_connection 2 [])\<lparr>conn := (sample_conn 2 [])\<lparr>executed := [[''1'', ''NA'']]\<rparr>\<rparr>) (- 1) =
     (Inl BindingError, sample_result False,
      (sample_connection 2 [])\<lparr>conn := (sample_conn 2 [])\<lparr>executed := [[''1'', ''NA'']]\<rparr>\<rparr>)"
proof -
  have "0 < nparams (sample_result False)"
    by (simp add: sample_result_def)
  from bind_rows_leaves_unbound [OF sample_ctor_succeeds this sample_bind_rows, of "- 1"]
    sample_ctor_succeeds sample_bind_rows
  show ?thesis by simp
qed

section \<open>The types of the columns\<close>

lemma fold_column_type_step:
  "fold (column_type_step spec) js (tys, ws) =
     (tys @ map (\<lambda>i. type_or_string (PQftype spec i)) js,
      ws @ map (\<lambda>i. UnknownFieldType (PQftype spec i) (PQfname spec i))
             (filter (\<lambda>i. oid_type (PQftype spec i) = None) js))"
  by (induction js arbitrary: tys ws)
     (auto simp: column_type_step_def type_or_string_def split: option.splits)

lemma get_column_types_eq:
  assumes "pSpec r = Some spec" and "ncols r = int (length (attDescs spec))"
  shows "get_column_types r =
     (map (\<lambda>(nm, t). type_or_string t) (attDescs spec),
      map (\<lambda>(nm, t). UnknownFieldType t nm) (filter (\<lambda>(nm, t). oid_type t = None) (attDescs spec)))"
proof -
  let ?fs = "attDescs spec"
  have nth: "map (\<lambda>i. ?fs ! i) [0..<length ?fs] = ?fs"
    by (rule map_nth)
  have t: "map (\<lambda>i. type_or_string (PQftype (Some spec) i)) [0..<length ?fs]
        = map (\<lambda>(nm, t). type_or_string t) (map (\<lambda>i. ?fs ! i) [0..<length ?fs])"
    by (simp add: PQftype_def case_prod_beta)
  have f: "filter (\<lambda>i. oid_type (PQftype (Some spec) i) = None) [0..<length ?fs]
        = filter (\<lambda>i. (\<lambda>(nm, t). oid_type t = None) (?fs ! i)) [0..<length ?fs]"
    by (rule filter_cong) (simp_all add: PQftype_def case_prod_beta)
  have w: "map (\<lambda>i. UnknownFieldType (PQftype (Some spec) i) (PQfname (Some spec) i))
             (filter (\<lambda>i. oid_type (PQftype (Some spec) i) = None) [0..<length ?fs])
        = map (\<lambda>(nm, t). UnknownFieldType t nm)
            (filter (\<lambda>(nm, t). oid_type t = None) (map (\<lambda>i. ?fs ! i) [0..<length ?fs]))"
    unfolding f filter_map map_map
    by (rule map_cong) (simp_all add: PQftype_def PQfname_def case_prod_beta o_def)
  show ?thesis
    using assms t w
    by (simp add: get_column_types_def fold_column_type_step nth)
qed

text \<open>
  The constructor leaves as many types as the result has columns: the theorems on
  \<open>fetch\<close> take this for granted.
\<close>

lemma ctor_column_count:
  assumes "PqResult_ctor self pc sql = (Inr (r, ws), pc')"
  shows "ncols r = int (length (types r))"
  using assms
  by (auto simp: PqResult_ctor_def Let_def get_column_types_def fold_column_type_step
      PQnfields_def split: sum.splits prod.splits option.splits)

text \<open>
  Claim C8: whatever the types of the fields, the construction succeeds when the
  connection is usable, the statement prepares and describes, and a statement without
  parameters can be sent. The types of the columns are those of the table, and
  \<open>PGString\<close> for a type outside it; the warnings raised are one for each field of a type
  outside the table, in the order of the fields, each with the type and the name of its
  field. They are raised in the constructor, which calls \<open>get_column_types\<close> once;
  \<open>fetch\<close> reads the member \<open>types\<close> and raises none.
\<close>

theorem unknown_type_is_string_with_one_warning:
  assumes "usable pc"
    and "prepare_reply (conn pc) sql = Some p" and "resultStatus p = PGRES_COMMAND_OK"
    and "describe_reply (conn pc) = Some spec" and "resultStatus spec = PGRES_COMMAND_OK"
    and "0 < numParameters spec \<or> (send_reply (conn pc) [] \<noteq> None \<and> single_row_reply (conn pc))"
  shows "\<exists>r pc'. PqResult_ctor self pc sql =
           (Inr (r, map (\<lambda>(nm, t). UnknownFieldType t nm)
                      (filter (\<lambda>(nm, t). oid_type t = None) (attDescs spec))), pc')
         \<and> types r = map (\<lambda>(nm, t). type_or_string t) (attDescs spec)
         \<and> names r = map fst (attDescs spec)
         \<and> (\<forall>i < length (attDescs spec).
               oid_type (snd (attDescs spec ! i)) = None \<longrightarrow> types r ! i = PGString)"
proof -
  have "\<exists>r0 pc0. ctor_try self (set_current_result pc (Some self)) sql = (Inr r0, pc0)
          \<and> pSpec r0 = Some spec"
  proof (cases "numParameters spec = 0")
    case True
    with assms show ?thesis
      by (auto simp: ctor_try_def set_current_result_def PQprepare_def PQdescribePrepared_def
          PQresultStatus_def PQnparams_def bind0_def PQsendQueryPrepared_def
          PQsetSingleRowMode_def Let_def)
  next
    case False
    with assms show ?thesis
      by (simp add: ctor_try_def set_current_result_def PQprepare_def PQdescribePrepared_def
          PQresultStatus_def PQnparams_def Let_def)
  qed
  then obtain r0 pc0
    where t: "ctor_try self (set_current_result pc (Some self)) sql = (Inr r0, pc0)"
      and s: "pSpec r0 = Some spec"
    by blast
  define r2 where "r2 = r0\<lparr>ncols := PQnfields (pSpec r0)\<rparr>"
  define r3 where "r3 = r2\<lparr>names := get_column_names r2\<rparr>"
  have "pSpec r3 = Some spec" "ncols r3 = int (length (attDescs spec))"
    using s by (simp_all add: r3_def r2_def PQnfields_def)
  from get_column_types_eq [OF this]
  have g: "get_column_types r3 =
     (map (\<lambda>(nm, t). type_or_string t) (attDescs spec),
      map (\<lambda>(nm, t). UnknownFieldType t nm) (filter (\<lambda>(nm, t). oid_type t = None) (attDescs spec)))" .
  have n: "get_column_names r2 = map fst (attDescs spec)"
  proof -
    have "map (\<lambda>i. PQfname (Some spec) i) [0..<length (attDescs spec)]
        = map fst (map (\<lambda>i. attDescs spec ! i) [0..<length (attDescs spec)])"
      by (simp add: PQfname_def)
    then show ?thesis
      using s by (simp add: get_column_names_def r2_def PQnfields_def map_nth)
  qed
  show ?thesis
    using assms(1) t g n
    by (simp add: PqResult_ctor_def check_connection_def Let_def r3_def r2_def
        type_or_string_def case_prod_beta)
qed

theorem unknown_type_is_string_with_one_warning_witness:
  "\<exists>r pc'. PqResult_ctor 7 (sample_connection 2 []) ''INSERT'' =
       (Inr (r, [UnknownFieldType 600 ''geom'', UnknownFieldType 601 ''geom'']), pc')
     \<and> types r = [PGInt, PGString, PGDatetimeTZ, PGString]
     \<and> names r = [''id'', ''geom'', ''at'', ''geom'']"
proof -
  have u: "usable (sample_connection 2 [])"
    and p: "prepare_reply (conn (sample_connection 2 [])) ''INSERT'' = Some (unit_of PGRES_COMMAND_OK [])"
    and ps: "resultStatus (unit_of PGRES_COMMAND_OK []) = PGRES_COMMAND_OK"
    and d: "describe_reply (conn (sample_connection 2 [])) = Some (sample_spec 2)"
    and ds: "resultStatus (sample_spec 2) = PGRES_COMMAND_OK"
    and n: "0 < numParameters (sample_spec 2)"
    by (simp_all add: sample_connection_def sample_conn_def sample_spec_def unit_of_def)
  from n have "0 < numParameters (sample_spec 2)
      \<or> (send_reply (conn (sample_connection 2 [])) [] \<noteq> None
          \<and> single_row_reply (conn (sample_connection 2 [])))"
    by simp
  from unknown_type_is_string_with_one_warning [OF u p ps d ds this, of 7]
  obtain r pc' where "PqResult_ctor 7 (sample_connection 2 []) ''INSERT'' =
        (Inr (r, map (\<lambda>(nm, t). UnknownFieldType t nm)
                   (filter (\<lambda>(nm, t). oid_type t = None) (attDescs (sample_spec 2)))), pc')"
    and "types r = map (\<lambda>(nm, t). type_or_string t) (attDescs (sample_spec 2))"
    and "names r = map fst (attDescs (sample_spec 2))"
    by blast
  then show ?thesis
    by (intro exI [of _ r] exI [of _ pc'])
       (simp add: sample_spec_def type_or_string_def oid_type_def)
qed

section \<open>Timestamps\<close>








section \<open>The loop of fetch\<close>

text \<open>Writing one row into a table, and resizing a table.\<close>

lemma set_list_value_cell:
  assumes "j < length tys" and "i < length x"
  shows "set_list_value h \<lparr>pRes = Some u\<rparr> x i j tys =
     (case cell_value h tys u j of Inl e \<Rightarrow> Inl e | Inr v \<Rightarrow> Inr (x[i := v]))"
  using assms
  by (cases "tys ! j")
     (simp_all add: cell_value_def set_list_value_def store_def split: sum.splits)

lemma set_row_from:
  assumes "length cols = p" and "p \<le> length tys"
    and "\<forall>j<p. i < length (cols ! j)"
    and "\<forall>j<p. cell_value h tys u j = Inr (vs ! j)"
  shows "set_row h \<lparr>pRes = Some u\<rparr> tys i [k..<p] cols =
     Inr (map (\<lambda>j. if k \<le> j then (cols ! j)[i := vs ! j] else cols ! j) [0..<p])"
  using assms
proof (induction "p - k" arbitrary: k cols)
  case 0
  then have pk: "p \<le> k" by simp
  have "map (\<lambda>j. if k \<le> j then (cols ! j)[i := vs ! j] else cols ! j) [0..<p] = cols"
    using 0(2) pk by (auto intro: nth_equalityI)
  with pk show ?case by simp
next
  case (Suc d)
  then have kp: "k < p" by simp
  then have up: "[k..<p] = k # [Suc k..<p]" by (simp add: upt_conv_Cons)
  let ?cols' = "cols[k := (cols ! k)[i := vs ! k]]"
  have slv: "set_list_value h \<lparr>pRes = Some u\<rparr> (cols ! k) i k tys = Inr ((cols ! k)[i := vs ! k])"
    using Suc.prems kp by (simp add: set_list_value_cell)
  have ih: "set_row h \<lparr>pRes = Some u\<rparr> tys i [Suc k..<p] ?cols' =
     Inr (map (\<lambda>j. if Suc k \<le> j then (?cols' ! j)[i := vs ! j] else ?cols' ! j) [0..<p])"
  proof (rule Suc.hyps(1))
    show "d = p - Suc k" using Suc.hyps(2) by simp
    show "length ?cols' = p" using Suc.prems by simp
    show "p \<le> length tys" by fact
    show "\<forall>j<p. i < length (?cols' ! j)"
      using Suc.prems kp by (auto simp: nth_list_update)
    show "\<forall>j<p. cell_value h tys u j = Inr (vs ! j)" by fact
  qed
  have "map (\<lambda>j. if Suc k \<le> j then (?cols' ! j)[i := vs ! j] else ?cols' ! j) [0..<p]
      = map (\<lambda>j. if k \<le> j then (cols ! j)[i := vs ! j] else cols ! j) [0..<p]"
  proof (rule map_cong [OF refl])
    fix j assume "j \<in> set [0..<p]"
    then have jp: "j < p" by simp
    consider "j < k" | "j = k" | "k < j" by linarith
    then show "(if Suc k \<le> j then (?cols' ! j)[i := vs ! j] else ?cols' ! j)
             = (if k \<le> j then (cols ! j)[i := vs ! j] else cols ! j)"
      using Suc.prems(1) kp jp by cases (simp_all add: nth_list_update)
  qed
  with ih slv up Suc.prems(1) kp show ?case by simp
qed

lemma decodable_cells:
  assumes "decodable h tys u" and "j < length tys"
  shows "cell_value h tys u j = Inr (row_cells h tys u ! j)"
proof -
  from assms have "case cell_value h tys u j of Inl e \<Rightarrow> False | Inr v \<Rightarrow> True"
    by (simp add: decodable_def list_all_iff)
  with assms(2) show ?thesis
    by (simp add: row_cells_def split: sum.splits)
qed

lemma length_row_cells [simp]: "length (row_cells h tys u) = length tys"
  by (simp add: row_cells_def)

lemma length_table [simp]: "length (table p n rows) = p"
  by (simp add: table_def)

lemma nth_table:
  "j < p \<Longrightarrow> table p n rows ! j = map (\<lambda>rw. rw ! j) rows @ replicate (n - length rows) Unwritten"
  by (simp add: table_def)

lemma table_column_length:
  assumes "x \<in> set (table p n rows)" and "length rows \<le> n"
  shows "length x = n"
  using assms by (auto simp: table_def)

lemma table_Nil: "map (\<lambda>t. replicate n Unwritten) tys = table (length tys) n []"
  by (simp add: table_def map_replicate_const)

lemma table_full:
  "table p (length rows) rows = map (\<lambda>j. map (\<lambda>rw. rw ! j) rows) [0..<p]"
  by (simp add: table_def)

lemma table_resize:
  assumes "length rows \<le> m"
  shows "map (\<lambda>x. lengthgets x m) (table p n rows) = table p m rows"
proof -
  have "min (m - length rows) (n - length rows) + (m - (length rows + (n - length rows)))
      = m - length rows"
    using assms by (simp add: min_def)
  then have "replicate (min (m - length rows) (n - length rows)) (Unwritten :: 'a cell)
      @ replicate (m - (length rows + (n - length rows))) Unwritten
      = replicate (m - length rows) Unwritten"
    by (simp add: replicate_add [symmetric])
  with assms show ?thesis
    by (simp add: table_def lengthgets_def)
qed

lemma set_row_table:
  assumes "decodable h tys u" and "length rows < n"
  shows "set_row h \<lparr>pRes = Some u\<rparr> tys (length rows) [0..<length tys] (table (length tys) n rows)
       = Inr (table (length tys) n (rows @ [row_cells h tys u]))"
proof -
  let ?p = "length tys" and ?vs = "row_cells h tys u" and ?l = "length rows"
  have "set_row h \<lparr>pRes = Some u\<rparr> tys ?l [0..<?p] (table ?p n rows) =
     Inr (map (\<lambda>j. if 0 \<le> j then (table ?p n rows ! j)[?l := ?vs ! j] else table ?p n rows ! j)
            [0..<?p])"
  proof (rule set_row_from)
    show "length (table ?p n rows) = ?p" by simp
    show "?p \<le> length tys" by simp
    show "\<forall>j<?p. ?l < length (table ?p n rows ! j)"
      using assms(2) by (simp add: nth_table)
    show "\<forall>j<?p. cell_value h tys u j = Inr (?vs ! j)"
      using assms(1) by (simp add: decodable_cells)
  qed
  moreover have "map (\<lambda>j. if 0 \<le> j then (table ?p n rows ! j)[?l := ?vs ! j] else table ?p n rows ! j)
            [0..<?p] = table ?p n (rows @ [?vs])"
  proof -
    have "(map (\<lambda>rw. rw ! j) rows @ replicate (n - ?l) Unwritten)[?l := v]
        = map (\<lambda>rw. rw ! j) rows @ v # replicate (n - Suc ?l) Unwritten" for j and v :: "'a cell"
    proof -
      from assms(2) obtain d where "n - ?l = Suc d" "n - Suc ?l = d"
        by (cases "n - ?l") auto
      then show ?thesis by (simp add: list_update_append)
    qed
    then show ?thesis
      unfolding table_def by (intro nth_equalityI) simp_all
  qed
  ultimately show ?thesis by simp
qed

lemma PqRow_pull_row:
  assumes "pending c = v # vs" and "is_row v"
  shows "PqRow_pull c = (Inr \<lparr>pRes = Some v\<rparr>, c\<lparr>pending := vs\<rparr>)"
  using assms
  by (simp add: PqRow_pull_def PQgetResult_def PQresultStatus_def is_row_def)

lemma PqRow_pull_end:
  assumes "pending c = t # rest" and "is_end t"
  shows "\<exists>c'. PqRow_pull c = (Inr \<lparr>pRes = Some t\<rparr>, c')"
  using assms
  by (simp add: PqRow_pull_def PQgetResult_def PQresultStatus_def is_end_def Let_def)

lemma fetch_row_stream:
  assumes "stream_state r pc (u # us) t rest" and "pNextRow r \<noteq> None"
  shows "\<exists>row c'. fetch_row r pc =
            (Inr (), r\<lparr>pNextRow := Some row, nrows := nrows r + 1\<rparr>, pc\<lparr>conn := c'\<rparr>)
          \<and> stream_state (r\<lparr>pNextRow := Some row, nrows := nrows r + 1\<rparr>) (pc\<lparr>conn := c'\<rparr>) us t rest"
proof (cases us)
  case Nil
  with assms have p: "pending (conn pc) = t # rest" and e: "is_end t"
    by (auto simp: stream_state_def)
  from PqRow_pull_end [OF p e] obtain c' where "PqRow_pull (conn pc) = (Inr \<lparr>pRes = Some t\<rparr>, c')"
    by blast
  with Nil e show ?thesis
    by (auto simp: fetch_row_def stream_state_def)
next
  case (Cons v vs)
  with assms have p: "pending (conn pc) = v # vs @ t # rest" and e: "is_end t"
    and rw: "is_row v" "list_all is_row vs"
    by (auto simp: stream_state_def)
  from PqRow_pull_row [OF p rw(1)] Cons e rw show ?thesis
    by (intro exI [of _ "\<lparr>pRes = Some v\<rparr>"] exI [of _ "(conn pc)\<lparr>pending := vs @ t # rest\<rparr>"])
       (simp add: fetch_row_def stream_state_def)
qed

lemma fetch_row_if_needed_stream:
  assumes "stream_state r pc us t rest"
  shows "\<exists>r' pc'. fetch_row_if_needed r pc = (Inr (), r', pc')
          \<and> stream_state r' pc' us t rest \<and> pNextRow r' \<noteq> None
          \<and> r' = r\<lparr>pNextRow := pNextRow r', nrows := nrows r'\<rparr> \<and> pc' = pc\<lparr>conn := conn pc'\<rparr>"
proof (cases "pNextRow r")
  case (Some row)
  with assms show ?thesis by (simp add: fetch_row_if_needed_def)
next
  case None
  show ?thesis
  proof (cases us)
    case Nil
    with assms None have p: "pending (conn pc) = t # rest" and e: "is_end t"
      by (auto simp: stream_state_def)
    from PqRow_pull_end [OF p e] obtain c' where "PqRow_pull (conn pc) = (Inr \<lparr>pRes = Some t\<rparr>, c')"
      by blast
    with Nil None e show ?thesis
      by (auto simp: fetch_row_if_needed_def fetch_row_def stream_state_def)
  next
    case (Cons v vs)
    with assms None have p: "pending (conn pc) = v # vs @ t # rest" and e: "is_end t"
      and rw: "is_row v" "list_all is_row vs"
      by (auto simp: stream_state_def)
    from PqRow_pull_row [OF p rw(1)] Cons None e rw show ?thesis
      by (auto simp: fetch_row_if_needed_def fetch_row_def stream_state_def)
  qed
qed

text \<open>
  One turn of the loop on a stream with a row in the lookahead, and the whole loop: for
  \<open>n_max < 0\<close> it takes every row and doubles the capacity when it is full; otherwise it
  takes rows up to the capacity \<open>n\<close> and leaves the others.
\<close>

lemma fetch_loop_step:
  assumes st: "stream_state r pc (u # us) t rest" and nx: "pNextRow r \<noteq> None"
    and dec: "decodable h (types r) u"
    and nc: "ncols r = int (length (types r))"
    and i: "i = int (length rows)" and le: "i \<le> n"
    and intr: "\<not> interrupt_pending h"
    and go: "i < n \<or> (n_max < 0 \<and> 0 < n \<and> n * 2 \<le> INT_MAX)"
    and n': "n' = (if n \<le> i then n * 2 else n)"
  shows "\<exists>row c'.
      fetch_loop h n_max i n
        (out\<lparr>columns := table (length (types r)) (nat n) rows, row_names := n\<rparr>) r pc
      = fetch_loop h n_max (i + 1) n'
          (out\<lparr>columns := table (length (types r)) (nat n') (rows @ [row_cells h (types r) u]),
               row_names := n'\<rparr>)
          (r\<lparr>pNextRow := Some row, nrows := nrows r + 1\<rparr>) (pc\<lparr>conn := c'\<rparr>)
      \<and> stream_state (r\<lparr>pNextRow := Some row, nrows := nrows r + 1\<rparr>) (pc\<lparr>conn := c'\<rparr>) us t rest"
proof -
  from fetch_row_stream [OF st nx] obtain row c'
    where fr: "fetch_row r pc =
            (Inr (), r\<lparr>pNextRow := Some row, nrows := nrows r + 1\<rparr>, pc\<lparr>conn := c'\<rparr>)"
      and st': "stream_state (r\<lparr>pNextRow := Some row, nrows := nrows r + 1\<rparr>) (pc\<lparr>conn := c'\<rparr>) us t rest"
    by blast
  from st nx have cur: "pNextRow r = Some \<lparr>pRes = Some u\<rparr>" and hd: "has_data \<lparr>pRes = Some u\<rparr>"
    by (auto simp: stream_state_def has_data_def status_def PQresultStatus_def is_row_def)
  have "i < n'"
    using le go n' by (cases "n \<le> i") auto
  then have lt: "length rows < nat n'"
    using i by linarith
  have ln: "length rows \<le> nat n'"
    using lt by simp
  let ?p = "length (types r)"
  have sr: "set_row h \<lparr>pRes = Some u\<rparr> (types r) (nat i) [0..<nat (ncols r)] (table ?p (nat n') rows)
          = Inr (table ?p (nat n') (rows @ [row_cells h (types r) u]))"
    using set_row_table [OF dec lt] i nc by simp
  have "fetch_loop h n_max i n
        (out\<lparr>columns := table ?p (nat n) rows, row_names := n\<rparr>) r pc
      = fetch_loop h n_max (i + 1) n'
          (out\<lparr>columns := table ?p (nat n') (rows @ [row_cells h (types r) u]), row_names := n'\<rparr>)
          (r\<lparr>pNextRow := Some row, nrows := nrows r + 1\<rparr>) (pc\<lparr>conn := c'\<rparr>)"
  proof (cases "n \<le> i")
    case True
    with n' have n2: "n' = n * 2" by simp
    from True go have g: "n_max < 0" "\<not> INT_MAX < n * 2" by auto
    from ln n2 have "length rows \<le> nat (n * 2)" by simp
    from table_resize [OF this]
    have "map (\<lambda>x. lengthgets x (nat (n * 2))) (table ?p (nat n) rows) = table ?p (nat (n * 2)) rows" .
    with sr n2 have sr2: "set_row h \<lparr>pRes = Some u\<rparr> (types r) (nat i) [0..<nat (ncols r)]
           (map (\<lambda>x. lengthgets x (nat (n * 2))) (table ?p (nat n) rows))
          = Inr (table ?p (nat (n * 2)) (rows @ [row_cells h (types r) u]))"
      by simp
    show ?thesis
      apply (subst fetch_loop.simps)
      using cur hd True g sr2 fr intr n2
      apply (simp add: Let_def df_resize_def)
      apply (cases out)
      apply simp
      done
  next
    case False
    with n' have n2: "n' = n" by simp
    from sr n2 have sr2: "set_row h \<lparr>pRes = Some u\<rparr> (types r) (nat i) [0..<nat (ncols r)]
           (table ?p (nat n) rows)
          = Inr (table ?p (nat n) (rows @ [row_cells h (types r) u]))"
      by simp
    show ?thesis
      apply (subst fetch_loop.simps)
      using cur hd False sr2 fr intr n2
      apply (simp add: Let_def)
      apply (cases out)
      apply simp
      done
  qed
  with st' show ?thesis by blast
qed

lemma fetch_loop_end:
  assumes "stream_state r pc [] t rest" and "pNextRow r \<noteq> None"
  shows "fetch_loop h n_max i n out r pc = (Inr (i, n, out), r, pc)"
proof -
  from assms have "pNextRow r = Some \<lparr>pRes = Some t\<rparr>" and "\<not> has_data \<lparr>pRes = Some t\<rparr>"
    by (auto simp: stream_state_def has_data_def status_def PQresultStatus_def is_end_def)
  then show ?thesis
    by (subst fetch_loop.simps) simp
qed

lemma fetch_loop_all:
  assumes "stream_state r pc us t rest" and "pNextRow r \<noteq> None"
    and "list_all (decodable h (types r)) us"
    and "ncols r = int (length (types r))"
    and "i = int (length rows)" and "i \<le> n"
    and "\<not> interrupt_pending h"
    and "n_max < 0" and "0 < n" and "int (length rows + length us) \<le> 2 ^ 30"
  shows "\<exists>r' pc'.
      fetch_loop h n_max i n
        (out\<lparr>columns := table (length (types r)) (nat n) rows, row_names := n\<rparr>) r pc
      = (Inr (i + int (length us), grown i n (length us),
              out\<lparr>columns := table (length (types r)) (nat (grown i n (length us)))
                                (rows @ map (row_cells h (types r)) us),
                  row_names := grown i n (length us)\<rparr>), r', pc')
      \<and> stream_state r' pc' [] t rest \<and> pNextRow r' \<noteq> None
      \<and> r' = r\<lparr>pNextRow := pNextRow r', nrows := nrows r'\<rparr> \<and> pc' = pc\<lparr>conn := conn pc'\<rparr>"
  using assms
proof (induction us arbitrary: i n rows r pc)
  case Nil
  from fetch_loop_end [OF Nil(1,2)] Nil(1,2) show ?case
    by (intro exI [of _ r] exI [of _ pc]) simp
next
  case (Cons u us)
  let ?n' = "if n \<le> i then n * 2 else n"
  have go: "i < n \<or> (n_max < 0 \<and> 0 < n \<and> n * 2 \<le> INT_MAX)"
    using Cons.prems by (auto simp: INT_MAX_def)
  from Cons.prems have du: "decodable h (types r) u" by simp
  from fetch_loop_step [OF Cons.prems(1,2) du Cons.prems(4,5,6,7) go refl, of out]
  obtain row c' where
    eq: "fetch_loop h n_max i n
        (out\<lparr>columns := table (length (types r)) (nat n) rows, row_names := n\<rparr>) r pc
      = fetch_loop h n_max (i + 1) ?n'
          (out\<lparr>columns := table (length (types r)) (nat ?n') (rows @ [row_cells h (types r) u]),
               row_names := ?n'\<rparr>)
          (r\<lparr>pNextRow := Some row, nrows := nrows r + 1\<rparr>) (pc\<lparr>conn := c'\<rparr>)"
    and st': "stream_state (r\<lparr>pNextRow := Some row, nrows := nrows r + 1\<rparr>) (pc\<lparr>conn := c'\<rparr>) us t rest"
    by blast
  let ?r1 = "r\<lparr>pNextRow := Some row, nrows := nrows r + 1\<rparr>" and ?pc1 = "pc\<lparr>conn := c'\<rparr>"
  have "\<exists>r' pc'.
      fetch_loop h n_max (i + 1) ?n'
        (out\<lparr>columns := table (length (types ?r1)) (nat ?n') (rows @ [row_cells h (types r) u]),
             row_names := ?n'\<rparr>) ?r1 ?pc1
      = (Inr (i + 1 + int (length us), grown (i + 1) ?n' (length us),
              out\<lparr>columns := table (length (types ?r1)) (nat (grown (i + 1) ?n' (length us)))
                                ((rows @ [row_cells h (types r) u]) @ map (row_cells h (types ?r1)) us),
                  row_names := grown (i + 1) ?n' (length us)\<rparr>), r', pc')
      \<and> stream_state r' pc' [] t rest \<and> pNextRow r' \<noteq> None
      \<and> r' = ?r1\<lparr>pNextRow := pNextRow r', nrows := nrows r'\<rparr> \<and> pc' = ?pc1\<lparr>conn := conn pc'\<rparr>"
  proof (rule Cons.IH)
    show "stream_state ?r1 ?pc1 us t rest" by fact
    show "pNextRow ?r1 \<noteq> None" by simp
    show "list_all (decodable h (types ?r1)) us" using Cons.prems(3) by simp
    show "ncols ?r1 = int (length (types ?r1))" using Cons.prems(4) by simp
    show "i + 1 = int (length (rows @ [row_cells h (types r) u]))" using Cons.prems(5) by simp
    show "i + 1 \<le> ?n'" using Cons.prems(6,9) by auto
    show "\<not> interrupt_pending h" by fact
    show "n_max < 0" by fact
    show "0 < ?n'" using Cons.prems(9) by simp
    show "int (length (rows @ [row_cells h (types r) u]) + length us) \<le> 2 ^ 30"
      using Cons.prems(10) by simp
  qed
  then obtain r' pc' where
    res: "fetch_loop h n_max (i + 1) ?n'
        (out\<lparr>columns := table (length (types r)) (nat ?n') (rows @ [row_cells h (types r) u]),
             row_names := ?n'\<rparr>) ?r1 ?pc1
      = (Inr (i + 1 + int (length us), grown (i + 1) ?n' (length us),
              out\<lparr>columns := table (length (types r)) (nat (grown (i + 1) ?n' (length us)))
                                ((rows @ [row_cells h (types r) u]) @ map (row_cells h (types r)) us),
                  row_names := grown (i + 1) ?n' (length us)\<rparr>), r', pc')"
    and fin: "stream_state r' pc' [] t rest" "pNextRow r' \<noteq> None"
    and r': "r' = ?r1\<lparr>pNextRow := pNextRow r', nrows := nrows r'\<rparr>"
    and pc': "pc' = ?pc1\<lparr>conn := conn pc'\<rparr>"
    by auto
  have r'': "r' = r\<lparr>pNextRow := pNextRow r', nrows := nrows r'\<rparr>"
    using r' by simp
  have pc'': "pc' = pc\<lparr>conn := conn pc'\<rparr>"
    using pc' by simp
  show ?case
    apply (intro exI [of _ r'] exI [of _ pc'])
    using eq res fin r'' pc''
    apply simp
    done
qed

lemma fetch_loop_break:
  assumes "stream_state r pc (u # us) t rest" and "pNextRow r \<noteq> None"
    and "n \<le> i" and "\<not> n_max < 0"
  shows "fetch_loop h n_max i n out r pc = (Inr (i, n, out), r, pc)"
proof -
  from assms have "pNextRow r = Some \<lparr>pRes = Some u\<rparr>" and "has_data \<lparr>pRes = Some u\<rparr>"
    by (auto simp: stream_state_def has_data_def status_def PQresultStatus_def is_row_def)
  with assms(3,4) show ?thesis
    by (subst fetch_loop.simps) simp
qed

lemma fetch_loop_upto:
  assumes "stream_state r pc us t rest" and "pNextRow r \<noteq> None"
    and "list_all (decodable h (types r)) us"
    and "ncols r = int (length (types r))"
    and "i = int (length rows)" and "i \<le> n"
    and "\<not> interrupt_pending h"
    and "\<not> n_max < 0"
  shows "\<exists>r' pc'.
      fetch_loop h n_max i n
        (out\<lparr>columns := table (length (types r)) (nat n) rows, row_names := n\<rparr>) r pc
      = (Inr (i + int (min (nat (n - i)) (length us)), n,
              out\<lparr>columns := table (length (types r)) (nat n)
                                (rows @ map (row_cells h (types r)) (take (nat (n - i)) us)),
                  row_names := n\<rparr>), r', pc')
      \<and> stream_state r' pc' (drop (nat (n - i)) us) t rest \<and> pNextRow r' \<noteq> None
      \<and> r' = r\<lparr>pNextRow := pNextRow r', nrows := nrows r'\<rparr> \<and> pc' = pc\<lparr>conn := conn pc'\<rparr>"
  using assms
proof (induction us arbitrary: i rows r pc)
  case Nil
  from fetch_loop_end [OF Nil(1,2)] Nil(1,2) show ?case
    by (intro exI [of _ r] exI [of _ pc]) simp
next
  case (Cons u us)
  show ?case
  proof (cases "n \<le> i")
    case True
    with Cons.prems(6) have "nat (n - i) = 0" by simp
    with fetch_loop_break [OF Cons.prems(1,2) True Cons.prems(8)] Cons.prems(1,2) show ?thesis
      by (intro exI [of _ r] exI [of _ pc]) simp
  next
    case False
    then have go: "i < n \<or> (n_max < 0 \<and> 0 < n \<and> n * 2 \<le> INT_MAX)" by simp
    from False have n': "n = (if n \<le> i then n * 2 else n)" by simp
    from Cons.prems have du: "decodable h (types r) u" by simp
    from fetch_loop_step [OF Cons.prems(1,2) du Cons.prems(4,5,6,7) go n', of out]
    obtain row c' where
      eq: "fetch_loop h n_max i n
          (out\<lparr>columns := table (length (types r)) (nat n) rows, row_names := n\<rparr>) r pc
        = fetch_loop h n_max (i + 1) n
            (out\<lparr>columns := table (length (types r)) (nat n) (rows @ [row_cells h (types r) u]),
                 row_names := n\<rparr>)
            (r\<lparr>pNextRow := Some row, nrows := nrows r + 1\<rparr>) (pc\<lparr>conn := c'\<rparr>)"
      and st': "stream_state (r\<lparr>pNextRow := Some row, nrows := nrows r + 1\<rparr>) (pc\<lparr>conn := c'\<rparr>) us t rest"
      by blast
    let ?r1 = "r\<lparr>pNextRow := Some row, nrows := nrows r + 1\<rparr>" and ?pc1 = "pc\<lparr>conn := c'\<rparr>"
    have "\<exists>r' pc'.
        fetch_loop h n_max (i + 1) n
          (out\<lparr>columns := table (length (types ?r1)) (nat n) (rows @ [row_cells h (types r) u]),
               row_names := n\<rparr>) ?r1 ?pc1
        = (Inr (i + 1 + int (min (nat (n - (i + 1))) (length us)), n,
                out\<lparr>columns := table (length (types ?r1)) (nat n)
                       ((rows @ [row_cells h (types r) u])
                          @ map (row_cells h (types ?r1)) (take (nat (n - (i + 1))) us)),
                    row_names := n\<rparr>), r', pc')
        \<and> stream_state r' pc' (drop (nat (n - (i + 1))) us) t rest \<and> pNextRow r' \<noteq> None
        \<and> r' = ?r1\<lparr>pNextRow := pNextRow r', nrows := nrows r'\<rparr> \<and> pc' = ?pc1\<lparr>conn := conn pc'\<rparr>"
    proof (rule Cons.IH)
      show "stream_state ?r1 ?pc1 us t rest" by fact
      show "pNextRow ?r1 \<noteq> None" by simp
      show "list_all (decodable h (types ?r1)) us" using Cons.prems(3) by simp
      show "ncols ?r1 = int (length (types ?r1))" using Cons.prems(4) by simp
      show "i + 1 = int (length (rows @ [row_cells h (types r) u]))" using Cons.prems(5) by simp
      show "i + 1 \<le> n" using False by simp
      show "\<not> interrupt_pending h" by fact
      show "\<not> n_max < 0" by fact
    qed
    then obtain r' pc' where
      res: "fetch_loop h n_max (i + 1) n
          (out\<lparr>columns := table (length (types r)) (nat n) (rows @ [row_cells h (types r) u]),
               row_names := n\<rparr>) ?r1 ?pc1
        = (Inr (i + 1 + int (min (nat (n - (i + 1))) (length us)), n,
                out\<lparr>columns := table (length (types r)) (nat n)
                       ((rows @ [row_cells h (types r) u])
                          @ map (row_cells h (types r)) (take (nat (n - (i + 1))) us)),
                    row_names := n\<rparr>), r', pc')"
      and fin: "stream_state r' pc' (drop (nat (n - (i + 1))) us) t rest" "pNextRow r' \<noteq> None"
      and r': "r' = ?r1\<lparr>pNextRow := pNextRow r', nrows := nrows r'\<rparr>"
      and pc': "pc' = ?pc1\<lparr>conn := conn pc'\<rparr>"
      by auto
    have r'': "r' = r\<lparr>pNextRow := pNextRow r', nrows := nrows r'\<rparr>"
      using r' by simp
    have pc'': "pc' = pc\<lparr>conn := conn pc'\<rparr>"
      using pc' by simp
    from False obtain d where d: "nat (n - i) = Suc d" "nat (n - (i + 1)) = d"
      by (cases "nat (n - i)") auto
    show ?thesis
      apply (intro exI [of _ r'] exI [of _ pc'])
      using eq res fin r'' pc'' d
      apply simp
      done
  qed
qed

lemma grown_power:
  assumes "i \<le> n" and "0 < n"
  shows "\<exists>m. grown i n k = n * 2 ^ m \<and> i + int k \<le> n * 2 ^ m
           \<and> (m = 0 \<or> n * 2 ^ (m - 1) < i + int k)"
  using assms
proof (induction k arbitrary: i n)
  case 0
  then show ?case by (intro exI [of _ 0]) simp
next
  case (Suc k)
  show ?case
  proof (cases "n \<le> i")
    case True
    with Suc.prems have "i + 1 \<le> n * 2" "0 < n * 2" by simp_all
    from Suc.IH [OF this] obtain m where
      m: "grown (i + 1) (n * 2) k = n * 2 * 2 ^ m" "i + 1 + int k \<le> n * 2 * 2 ^ m"
         "m = 0 \<or> n * 2 * 2 ^ (m - 1) < i + 1 + int k"
      by blast
    have "n * 2 ^ m < i + int (Suc k)"
    proof (cases m)
      case 0
      with True show ?thesis by simp
    next
      case (Suc m')
      with m(3) show ?thesis by (simp add: mult.assoc)
    qed
    with m(1,2) True show ?thesis
      by (intro exI [of _ "Suc m"]) (simp add: mult.assoc)
  next
    case False
    with Suc.prems have "i + 1 \<le> n" "0 < n" by simp_all
    from Suc.IH [OF this] False show ?thesis by (simp add: add.assoc)
  qed
qed

text \<open>
  Without any assumption on the stream: when the loop of a call with \<open>n_max \<ge> 0\<close>
  returns, the capacity is the one it started with and at most that many rows are
  written.
\<close>

lemma set_list_value_length:
  assumes "set_list_value h row x i j tys = Inr x'"
  shows "length x' = length x"
  using assms
  by (cases "tys ! j")
     (auto simp: set_list_value_def store_def split: if_splits sum.splits)

lemma set_row_lengths:
  assumes "set_row h row tys i js cols = Inr cols'"
  shows "map length cols' = map length cols"
  using assms
proof (induction js arbitrary: cols)
  case Nil
  then show ?case by simp
next
  case (Cons j js)
  from Cons.prems obtain x where j: "j < length cols"
    and x: "set_list_value h row (cols ! j) i j tys = Inr x"
    and r: "set_row h row tys i js (cols[j := x]) = Inr cols'"
    by (auto split: if_splits sum.splits)
  from set_list_value_length [OF x] have "map length (cols[j := x]) = map length cols"
    by (simp add: map_update list_update_same_conv j)
  with Cons.IH [OF r] show ?case by simp
qed

lemma fetch_loop_bounded:
  assumes "fetch_loop h n_max i n out r pc = (Inr (i', n', out'), r', pc')"
    and "\<not> n_max < 0" and "i \<le> n"
    and "\<forall>x\<in>set (columns out). length x = nat n"
  shows "n' = n \<and> i \<le> i' \<and> i' \<le> n \<and> (\<forall>x\<in>set (columns out'). length x = nat n)
    \<and> row_names out' = row_names out"
  using assms
proof (induction h n_max i n out r pc rule: fetch_loop.induct)
  case (1 h n_max i n out r pc)
  from "1.prems"(1) obtain row where row: "pNextRow r = Some row"
    by (subst (asm) fetch_loop.simps) (auto split: option.splits)
  show ?case
  proof (cases "has_data row \<and> i < n")
    case False
    with row "1.prems"(1,2) have "i' = i \<and> n' = n \<and> out' = out"
      by (subst (asm) fetch_loop.simps) (auto split: if_splits)
    with "1.prems" show ?thesis by simp
  next
    case True
    with row "1.prems"(1) obtain cols u r1 pc1
      where sr: "set_row h row (types r) (nat i) [0..<nat (ncols r)] (columns out) = Inr cols"
        and fr: "fetch_row r pc = (Inr u, r1, pc1)"
        and ni: "\<not> ((i + 1) mod 1000 = 0 \<and> interrupt_pending h)"
        and rec: "fetch_loop h n_max (i + 1) n (out\<lparr>columns := cols\<rparr>) r1 pc1
                    = (Inr (i', n', out'), r', pc')"
      by (subst (asm) fetch_loop.simps)
         (auto simp: Let_def split: sum.splits prod.splits if_splits)
    from set_row_lengths [OF sr] have "map length cols = map length (columns out)" .
    then have "set (map length cols) = set (map length (columns out))" by simp
    with "1.prems"(4) have len: "\<forall>x\<in>set (columns (out\<lparr>columns := cols\<rparr>)). length x = nat n"
      by auto
    have "n' = n \<and> i + 1 \<le> i' \<and> i' \<le> n \<and> (\<forall>x\<in>set (columns out'). length x = nat n)
      \<and> row_names out' = row_names (out\<lparr>columns := cols\<rparr>)"
    proof (rule "1.IH" [of row n out cols "Inr u" "(r1, pc1)" u r1 pc1])
      show "pNextRow r = Some row" by fact
      show "\<not> \<not> has_data row" using True by simp
      show "\<not> (n \<le> i \<and> \<not> n_max < 0)" using True by simp
      show "\<not> (n \<le> i \<and> INT_MAX < n * 2)" using True by simp
      show "n = (if n \<le> i then n * 2 else n)" using True by simp
      show "out = (if n \<le> i then df_resize out n else out)" using True by simp
      show "set_row h row (types r) (nat i) [0..<nat (ncols r)] (columns out) = Inr cols" by fact
      show "(Inr u, r1, pc1) = fetch_row r pc" using fr by simp
      show "Inr u = Inr u" by simp
      show "(r1, pc1) = (r1, pc1)" by simp
      show "\<not> ((i + 1) mod 1000 = 0 \<and> interrupt_pending h)" by fact
      show "fetch_loop h n_max (i + 1) n (out\<lparr>columns := cols\<rparr>) r1 pc1
              = (Inr (i', n', out'), r', pc')" by fact
      show "\<not> n_max < 0" by fact
      show "i + 1 \<le> n" using True by simp
      show "\<forall>x\<in>set (columns (out\<lparr>columns := cols\<rparr>)). length x = nat n" by fact
    qed
    then show ?thesis by simp
  qed
qed

lemma trim_table:
  fixes out :: "'d data_frame"
  assumes "i = int (length rows)" and "i \<le> n"
    and "out' = out\<lparr>columns := table p (nat n) rows, row_names := n\<rparr>"
  shows "columns (if i < n then df_resize out' i else out') = map (\<lambda>j. map (\<lambda>rw. rw ! j) rows) [0..<p]"
    and "row_names (if i < n then df_resize out' i else out') = i"
proof -
  have "map (\<lambda>x. lengthgets x (length rows)) (table p (nat n) rows) = table p (length rows) rows"
    by (rule table_resize) simp
  moreover have "\<not> i < n \<Longrightarrow> nat n = length rows"
    using assms(1,2) by simp
  ultimately show "columns (if i < n then df_resize out' i else out')
      = map (\<lambda>j. map (\<lambda>rw. rw ! j) rows) [0..<p]"
    using assms(1,3) by (auto simp: df_resize_def table_full)
  show "row_names (if i < n then df_resize out' i else out') = i"
    using assms by (auto simp: df_resize_def)
qed

lemma same_members:
  assumes "r' = r\<lparr>pNextRow := x, nrows := y\<rparr>"
  shows "types r' = types r" and "names r' = names r" and "ncols r' = ncols r"
    and "bound r' = bound r" and "this r' = this r"
  using assms by simp_all

lemma length_lengthgets [simp]: "length (lengthgets x k) = k"
  by (simp add: lengthgets_def)

lemma df_create_lengths:
  "\<forall>x\<in>set (columns (df_create tys nms n)). length x = nat n"
  by (simp add: df_create_def)

lemma fetch_returns:
  assumes "fetch h r pc n_max = (Inr df, r', pc')"
  obtains r1 pc1 i n' out' where "bound r" and "active r pc"
    and "fetch_row_if_needed r pc = (Inr (), r1, pc1)"
    and "fetch_loop h n_max 0 (if n_max < 0 then 100 else n_max)
           (df_create (types r) (names r) (if n_max < 0 then 100 else n_max)) r1 pc1
         = (Inr (i, n', out'), r', pc')"
    and "df = (if i < n' then df_resize out' i else out')
           \<lparr>col_attr := map (\<lambda>k. class_attr (types r' ! k))
              [0..<length (columns (if i < n' then df_resize out' i else out'))]\<rparr>"
  using assms
  by (auto simp: fetch_def Let_def split: if_splits sum.splits prod.splits)

lemma fetch_complete:
  assumes "pNextRow r = Some row" and "\<not> has_data row" and "bound r" and "active r pc"
  shows "\<exists>df. fetch h r pc m = (Inr df, r, pc) \<and> row_names df = 0
           \<and> (\<forall>x\<in>set (columns df). x = [])"
proof -
  have lp: "fetch_loop h m 0 n out r pc = (Inr (0, n, out), r, pc)" for n and out :: "'a data_frame"
    using assms(1,2) by (subst fetch_loop.simps) simp
  have fr: "fetch_row_if_needed r pc = (Inr (), r, pc)"
    using assms(1) by (simp add: fetch_row_if_needed_def)
  show ?thesis
    using assms(3,4) fr lp
    by (auto simp: fetch_def Let_def df_resize_def df_create_def lengthgets_def)
qed

lemma sample_types: "types (sample_result b) = [PGInt, PGString, PGDatetimeTZ, PGString]"
  by (simp add: sample_result_def)

lemma upt_4: "[0..<4] = [0, 1, 2, 3]"
  by (simp add: upt_rec)

lemma sample_cell_values:
  "cell_value (ref_host 0) [PGInt, PGString, PGDatetimeTZ, PGString] (sample_row s) 0
     = Inr (INTEGER (ref_atoi s))"
  "cell_value (ref_host 0) [PGInt, PGString, PGDatetimeTZ, PGString] (sample_row s) (Suc 0)
     = Inr (STRING_ELT NA_STRING)"
  "cell_value (ref_host 0) [PGInt, PGString, PGDatetimeTZ, PGString] (sample_row s) (Suc (Suc 0))
     = Inr (REAL (6841994429 / 4))"
  "cell_value (ref_host 0) [PGInt, PGString, PGDatetimeTZ, PGString] (sample_row s) (Suc (Suc (Suc 0)))
     = Inr (STRING_ELT (CHARSXP ''x''))"
proof -
  let ?tys = "[PGInt, PGString, PGDatetimeTZ, PGString]"
  show "cell_value (ref_host 0) ?tys (sample_row s) 0 = Inr (INTEGER (ref_atoi s))"
    by (simp add: cell_value_def set_list_value_def get_int_def is_null_def PQgetisnull_def
        PQgetvalue_def field_of_def sample_row_def unit_of_def ref_host_def)
  show "cell_value (ref_host 0) ?tys (sample_row s) (Suc 0) = Inr (STRING_ELT NA_STRING)"
    by (simp add: cell_value_def set_list_value_def get_string_def is_null_def PQgetisnull_def
        PQgetvalue_def field_of_def sample_row_def unit_of_def)
  show "cell_value (ref_host 0) ?tys (sample_row s) (Suc (Suc (Suc 0))) = Inr (STRING_ELT (CHARSXP ''x''))"
    by (simp add: cell_value_def set_list_value_def get_string_def is_null_def PQgetisnull_def
        PQgetvalue_def field_of_def sample_row_def unit_of_def)
  have v: "PQgetvalue (Some (sample_row s)) (Suc (Suc 0)) = ''2024-03-15 10:30:07.25+02''"
    and n: "\<not> is_null \<lparr>pRes = Some (sample_row s)\<rparr> (Suc (Suc 0))"
    by (simp_all add: is_null_def PQgetisnull_def PQgetvalue_def field_of_def sample_row_def
        unit_of_def)
  have tm: "datetime_tm (ref_host 0) ''2024-03-15 10:30:07.25+02'' =
     \<lparr>tm_sec = 7, tm_min = 30, tm_hour = 10, tm_mday = 15, tm_mon = 2, tm_year = 124,
      tm_isdst = - 1\<rparr>"
    by (simp add: datetime_tm_def digit_def c_char_def ref_host_def ref_strtod_def decimal_def
        floor_eq_iff)
  have g: "timegm (ref_host 0) \<lparr>tm_sec = 7, tm_min = 30, tm_hour = 10, tm_mday = 15,
      tm_mon = 2, tm_year = 124, tm_isdst = - 1\<rparr> = 1710498607"
    by (simp add: ref_host_def ref_timegm_def days_from_civil_def)
  have s: "strtod (ref_host 0) ''07.25+02'' = 29 / 4"
    by (simp add: ref_host_def ref_strtod_def decimal_def)
  have a: "dbl_add (ref_host 0) = (+)" "dbl_sub (ref_host 0) = (-)"
    "dbl_of_int (ref_host 0) = of_int" "tm_sec \<lparr>tm_sec = 7, tm_min = 30, tm_hour = 10,
       tm_mday = 15, tm_mon = 2, tm_year = 124, tm_isdst = - 1\<rparr> = 7"
    by (simp_all add: ref_host_def)
  have "get_datetime (ref_host 0) \<lparr>pRes = Some (sample_row s)\<rparr> (Suc (Suc 0)) False = Inr (6841994429 / 4)"
    using n by (simp add: get_datetime_def v Let_def g s a tm)
  then show "cell_value (ref_host 0) ?tys (sample_row s) (Suc (Suc 0)) = Inr (REAL (6841994429 / 4))"
    by (simp add: cell_value_def set_list_value_def store_def)
qed

lemma sample_row_decodable:
  "decodable (ref_host 0) [PGInt, PGString, PGDatetimeTZ, PGString] (sample_row s)"
  by (simp add: decodable_def upt_4 sample_cell_values)

lemma sample_row_cells:
  "row_cells (ref_host 0) [PGInt, PGString, PGDatetimeTZ, PGString] (sample_row s)
     = [INTEGER (ref_atoi s), STRING_ELT NA_STRING, REAL (6841994429 / 4),
        STRING_ELT (CHARSXP ''x'')]"
  by (simp add: row_cells_def upt_4 sample_cell_values)


section \<open>Fetching all rows\<close>

text \<open>
  Claim C4: on a stream of rows \<open>us\<close> ended by \<open>t\<close>, \<open>fetch\<close> with a negative \<open>n_max\<close>
  returns all of them. The loop starts on a table of capacity 100 and leaves one of
  capacity \<open>100 * 2 ^ m\<close>, the least such capacity that holds the rows; the table
  returned is trimmed to the number of rows: column \<open>j\<close> is the list of the \<open>j\<close>-th values
  of the rows, in their order, and no row is left in the stream. The result is bound
  and current, every row can be decoded, no interrupt is pending, and the rows are at
  most \<open>2 ^ 30\<close>, so that doubling the capacity does not overflow an \<^verbatim>\<open>int\<close>.
\<close>

theorem fetch_all_rows:
  assumes st: "stream_state r pc us t rest"
    and b: "bound r" and a: "active r pc"
    and nc: "ncols r = int (length (types r))"
    and dec: "list_all (decodable h (types r)) us"
    and intr: "\<not> interrupt_pending h"
    and neg: "n_max < 0"
    and len: "int (length us) \<le> 2 ^ 30"
  shows "\<exists>df r1 pc1 r' pc' m out'.
      fetch_row_if_needed r pc = (Inr (), r1, pc1)
    \<and> fetch_loop h n_max 0 100 (df_create (types r) (names r) 100) r1 pc1
        = (Inr (int (length us), 100 * 2 ^ m, out'), r', pc')
    \<and> (\<forall>x\<in>set (columns out'). int (length x) = 100 * 2 ^ m)
    \<and> int (length us) \<le> 100 * 2 ^ m \<and> (m = 0 \<or> 100 * 2 ^ (m - 1) < int (length us))
    \<and> fetch h r pc n_max = (Inr df, r', pc')
    \<and> columns df = map (\<lambda>j. map (\<lambda>rw. rw ! j) (map (row_cells h (types r)) us))
                      [0..<length (types r)]
    \<and> row_names df = int (length us) \<and> col_names df = names r
    \<and> stream_state r' pc' [] t rest"
proof -
  let ?p = "length (types r)" and ?rows = "map (row_cells h (types r)) us"
  let ?df0 = "df_create (types r) (names r) 100 :: 'a data_frame"
  from fetch_row_if_needed_stream [OF st] obtain r1 pc1
    where f1: "fetch_row_if_needed r pc = (Inr (), r1, pc1)"
      and st1: "stream_state r1 pc1 us t rest" and nx1: "pNextRow r1 \<noteq> None"
      and r1: "r1 = r\<lparr>pNextRow := pNextRow r1, nrows := nrows r1\<rparr>"
    by blast
  note m1 = same_members [OF r1]
  from grown_power [of 0 100 "length us"] obtain m
    where g: "grown 0 100 (length us) = 100 * 2 ^ m"
      and gle: "int (length us) \<le> 100 * 2 ^ m"
      and gmin: "m = 0 \<or> 100 * 2 ^ (m - 1) < int (length us)"
    by auto
  have "\<exists>r' pc'.
      fetch_loop h n_max 0 100
        (?df0\<lparr>columns := table (length (types r1)) (nat 100) [], row_names := 100\<rparr>) r1 pc1
      = (Inr (0 + int (length us), grown 0 100 (length us),
              ?df0\<lparr>columns := table (length (types r1)) (nat (grown 0 100 (length us)))
                                ([] @ map (row_cells h (types r1)) us),
                  row_names := grown 0 100 (length us)\<rparr>), r', pc')
      \<and> stream_state r' pc' [] t rest \<and> pNextRow r' \<noteq> None
      \<and> r' = r1\<lparr>pNextRow := pNextRow r', nrows := nrows r'\<rparr> \<and> pc' = pc1\<lparr>conn := conn pc'\<rparr>"
  proof (rule fetch_loop_all)
    show "stream_state r1 pc1 us t rest" by fact
    show "pNextRow r1 \<noteq> None" by fact
    show "list_all (decodable h (types r1)) us" using dec m1 by simp
    show "ncols r1 = int (length (types r1))" using nc m1 by simp
    show "0 = int (length ([] :: 'a cell list list))" by simp
    show "(0::int) \<le> 100" by simp
    show "\<not> interrupt_pending h" by fact
    show "n_max < 0" by fact
    show "(0::int) < 100" by simp
    show "int (length ([] :: 'a cell list list) + length us) \<le> 2 ^ 30" using len by simp
  qed
  then obtain r' pc' where
    lp0: "fetch_loop h n_max 0 100
        (?df0\<lparr>columns := table (length (types r1)) (nat 100) [], row_names := 100\<rparr>) r1 pc1
      = (Inr (0 + int (length us), grown 0 100 (length us),
              ?df0\<lparr>columns := table (length (types r1)) (nat (grown 0 100 (length us)))
                                ([] @ map (row_cells h (types r1)) us),
                  row_names := grown 0 100 (length us)\<rparr>), r', pc')"
    and fin: "stream_state r' pc' [] t rest"
    by blast
  have e0: "?df0\<lparr>columns := table ?p (nat 100) [], row_names := 100\<rparr> = ?df0"
    by (simp add: df_create_def table_Nil)
  have lp: "fetch_loop h n_max 0 100 ?df0 r1 pc1
      = (Inr (int (length us), 100 * 2 ^ m,
              ?df0\<lparr>columns := table ?p (nat (100 * 2 ^ m)) ?rows, row_names := 100 * 2 ^ m\<rparr>), r', pc')"
    using lp0 unfolding m1(1) g e0 by simp
  let ?out' = "?df0\<lparr>columns := table ?p (nat (100 * 2 ^ m)) ?rows, row_names := 100 * 2 ^ m\<rparr>"
  have i: "int (length us) = int (length ?rows)" by simp
  note tr = trim_table [where out = ?df0 and p = ?p, OF i gle refl]
  have cl: "\<forall>x\<in>set (columns ?out'). int (length x) = 100 * 2 ^ m"
  proof
    fix x assume "x \<in> set (columns ?out')"
    then have "x \<in> set (table ?p (nat (100 * 2 ^ m)) ?rows)" by simp
    from table_column_length [OF this] gle have "length x = nat (100 * 2 ^ m)" by simp
    then show "int (length x) = 100 * 2 ^ m" by simp
  qed
  have ft: "fetch h r pc n_max =
      (Inr ((if int (length us) < 100 * 2 ^ m then df_resize ?out' (int (length us)) else ?out')
             \<lparr>col_attr := map (\<lambda>k. class_attr (types r' ! k))
                 [0..<length (columns (if int (length us) < 100 * 2 ^ m
                                       then df_resize ?out' (int (length us)) else ?out'))]\<rparr>),
       r', pc')"
    using b a neg f1 lp by (simp add: fetch_def Let_def)
  show ?thesis
    apply (intro exI conjI)
             apply (rule f1)
            apply (rule lp)
           apply (rule cl)
          apply (rule gle)
         apply (rule gmin)
        apply (rule ft)
    using tr apply simp
    using tr apply simp
     apply (simp add: df_resize_def df_create_def)
    apply (rule fin)
    done
qed

theorem fetch_all_rows_witness:
  "\<exists>df r' pc'.
      fetch (ref_host 0) (sample_result True)
        (sample_connection 2 (replicate 250 (sample_row ''5'') @ [unit_of PGRES_TUPLES_OK []])) (- 1)
        = (Inr df, r', pc')
    \<and> columns df = [replicate 250 (INTEGER 5), replicate 250 (STRING_ELT NA_STRING),
                     replicate 250 (REAL (6841994429 / 4)),
                     replicate 250 (STRING_ELT (CHARSXP ''x''))]
    \<and> row_names df = 250"
proof -
  let ?us = "replicate 250 (sample_row ''5'')" and ?t = "unit_of PGRES_TUPLES_OK []"
  let ?r = "sample_result True" and ?pc = "sample_connection 2 (?us @ [?t])"
  have st: "stream_state ?r ?pc ?us ?t []"
    by (simp add: stream_state_def list_all_iff is_row_def is_end_def sample_row_def unit_of_def
        sample_result_def sample_connection_def sample_conn_def)
  have b: "bound ?r" and a: "active ?r ?pc" and nc: "ncols ?r = int (length (types ?r))"
    by (simp_all add: sample_result_def sample_connection_def active_def is_current_result_def)
  have dec: "list_all (decodable (ref_host 0) (types ?r)) ?us"
    by (simp add: list_all_iff sample_types sample_row_decodable)
  have intr: "\<not> interrupt_pending (ref_host 0)"
    by (simp add: ref_host_def)
  have len: "int (length ?us) \<le> 2 ^ 30"
    by simp
  from fetch_all_rows [OF st b a nc dec intr _ len, of "- 1"]
  obtain df r' pc' where "fetch (ref_host 0) ?r ?pc (- 1) = (Inr df, r', pc')"
    and "columns df = map (\<lambda>j. map (\<lambda>rw. rw ! j) (map (row_cells (ref_host 0) (types ?r)) ?us))
                        [0..<length (types ?r)]"
    and "row_names df = int (length ?us)"
    by auto
  then show ?thesis
    by (intro exI [of _ df] exI [of _ r'] exI [of _ pc'])
       (simp add: sample_types sample_row_cells upt_4 ref_atoi_def decimal_def)
qed

section \<open>Fetching at most n rows\<close>

text \<open>
  Claim C5, for \<open>n_max \<ge> 0\<close>. Whenever \<open>fetch\<close> returns, the table has at most \<open>n_max\<close>
  rows and every column has exactly the number of rows of the table. Whenever its loop
  returns, the capacity is still \<open>n_max\<close>. On a stream of rows \<open>us\<close> ended by \<open>t\<close>,
  \<open>fetch\<close> returns the first \<open>n_max\<close> rows, or all of them when they are fewer, and the
  others stay in the stream. Once \<open>is_complete\<close> has answered true, a \<open>fetch\<close> with any
  \<open>m\<close> returns a table with no rows and changes nothing.
\<close>

theorem fetch_at_most:
  assumes "0 \<le> n_max"
  shows "(\<forall>df r' pc'. fetch h r pc n_max = (Inr df, r', pc') \<longrightarrow>
            0 \<le> row_names df \<and> row_names df \<le> n_max
            \<and> (\<forall>x\<in>set (columns df). int (length x) = row_names df))
    \<and> (\<forall>r1 pc1 i' n' out' r' pc'.
          fetch_loop h n_max 0 n_max (df_create (types r) (names r) n_max) r1 pc1
            = (Inr (i', n', out'), r', pc') \<longrightarrow>
          n' = n_max \<and> (\<forall>x\<in>set (columns out'). int (length x) = n_max))
    \<and> (stream_state r pc us t rest \<and> bound r \<and> active r pc
          \<and> ncols r = int (length (types r)) \<and> list_all (decodable h (types r)) us
          \<and> \<not> interrupt_pending h \<longrightarrow>
        (\<exists>df r' pc'. fetch h r pc n_max = (Inr df, r', pc')
          \<and> columns df = map (\<lambda>j. map (\<lambda>rw. rw ! j)
                                  (map (row_cells h (types r)) (take (nat n_max) us)))
                            [0..<length (types r)]
          \<and> row_names df = int (min (nat n_max) (length us))
          \<and> stream_state r' pc' (drop (nat n_max) us) t rest))
    \<and> (\<forall>r0 pc0 m. is_complete r0 pc0 = (Inr True, r, pc) \<and> bound r \<and> active r pc \<longrightarrow>
          (\<exists>df. fetch h r pc m = (Inr df, r, pc) \<and> row_names df = 0
             \<and> (\<forall>x\<in>set (columns df). x = [])))"
proof (intro conjI allI impI)
  fix df r' pc'
  assume f: "fetch h r pc n_max = (Inr df, r', pc')"
  from f obtain r1 pc1 i n' out'
    where lp: "fetch_loop h n_max 0 (if n_max < 0 then 100 else n_max)
           (df_create (types r) (names r) (if n_max < 0 then 100 else n_max)) r1 pc1
         = (Inr (i, n', out'), r', pc')"
      and df: "df = (if i < n' then df_resize out' i else out')
           \<lparr>col_attr := map (\<lambda>k. class_attr (types r' ! k))
              [0..<length (columns (if i < n' then df_resize out' i else out'))]\<rparr>"
    by (rule fetch_returns)
  from assms lp have lp': "fetch_loop h n_max 0 n_max (df_create (types r) (names r) n_max) r1 pc1
         = (Inr (i, n', out'), r', pc')"
    by simp
  from fetch_loop_bounded [OF lp' _ assms df_create_lengths] assms
  have b: "n' = n_max" "0 \<le> i" "i \<le> n_max" "\<forall>x\<in>set (columns out'). length x = nat n_max"
    "row_names out' = n_max"
    by (simp_all add: df_create_def)
  show "0 \<le> row_names df" "row_names df \<le> n_max"
    using b df by (auto simp: df_resize_def)
  show "\<forall>x\<in>set (columns df). int (length x) = row_names df"
    using b df by (auto simp: df_resize_def)
next
  fix r1 pc1 i' n' out' r' pc'
  assume lp: "fetch_loop h n_max 0 n_max (df_create (types r) (names r) n_max) r1 pc1
            = (Inr (i', n', out'), r', pc')"
  from fetch_loop_bounded [OF lp _ assms df_create_lengths] assms
  show "n' = n_max" and "\<forall>x\<in>set (columns out'). int (length x) = n_max"
    by simp_all
next
  assume "stream_state r pc us t rest \<and> bound r \<and> active r pc
          \<and> ncols r = int (length (types r)) \<and> list_all (decodable h (types r)) us
          \<and> \<not> interrupt_pending h"
  then have st: "stream_state r pc us t rest" and b: "bound r" and a: "active r pc"
    and nc: "ncols r = int (length (types r))" and dec: "list_all (decodable h (types r)) us"
    and intr: "\<not> interrupt_pending h"
    by simp_all
  let ?p = "length (types r)" and ?rows = "map (row_cells h (types r)) (take (nat n_max) us)"
  let ?df0 = "df_create (types r) (names r) n_max :: 'a data_frame"
  from fetch_row_if_needed_stream [OF st] obtain r1 pc1
    where f1: "fetch_row_if_needed r pc = (Inr (), r1, pc1)"
      and st1: "stream_state r1 pc1 us t rest" and nx1: "pNextRow r1 \<noteq> None"
      and r1: "r1 = r\<lparr>pNextRow := pNextRow r1, nrows := nrows r1\<rparr>"
    by blast
  note m1 = same_members [OF r1]
  have "\<exists>r' pc'.
      fetch_loop h n_max 0 n_max
        (?df0\<lparr>columns := table (length (types r1)) (nat n_max) [], row_names := n_max\<rparr>) r1 pc1
      = (Inr (0 + int (min (nat (n_max - 0)) (length us)), n_max,
              ?df0\<lparr>columns := table (length (types r1)) (nat n_max)
                                ([] @ map (row_cells h (types r1)) (take (nat (n_max - 0)) us)),
                  row_names := n_max\<rparr>), r', pc')
      \<and> stream_state r' pc' (drop (nat (n_max - 0)) us) t rest \<and> pNextRow r' \<noteq> None
      \<and> r' = r1\<lparr>pNextRow := pNextRow r', nrows := nrows r'\<rparr> \<and> pc' = pc1\<lparr>conn := conn pc'\<rparr>"
  proof (rule fetch_loop_upto)
    show "stream_state r1 pc1 us t rest" by fact
    show "pNextRow r1 \<noteq> None" by fact
    show "list_all (decodable h (types r1)) us" using dec m1 by simp
    show "ncols r1 = int (length (types r1))" using nc m1 by simp
    show "0 = int (length ([] :: 'a cell list list))" by simp
    show "0 \<le> n_max" by fact
    show "\<not> interrupt_pending h" by fact
    show "\<not> n_max < 0" using assms by simp
  qed
  then obtain r' pc' where
    lp0: "fetch_loop h n_max 0 n_max
        (?df0\<lparr>columns := table (length (types r1)) (nat n_max) [], row_names := n_max\<rparr>) r1 pc1
      = (Inr (0 + int (min (nat (n_max - 0)) (length us)), n_max,
              ?df0\<lparr>columns := table (length (types r1)) (nat n_max)
                                ([] @ map (row_cells h (types r1)) (take (nat (n_max - 0)) us)),
                  row_names := n_max\<rparr>), r', pc')"
    and fin: "stream_state r' pc' (drop (nat (n_max - 0)) us) t rest"
    by blast
  have e0: "?df0\<lparr>columns := table ?p (nat n_max) [], row_names := n_max\<rparr> = ?df0"
    by (simp add: df_create_def table_Nil)
  let ?out' = "?df0\<lparr>columns := table ?p (nat n_max) ?rows, row_names := n_max\<rparr>"
  let ?i = "int (min (nat n_max) (length us))"
  have lp: "fetch_loop h n_max 0 n_max ?df0 r1 pc1 = (Inr (?i, n_max, ?out'), r', pc')"
    using lp0 unfolding m1(1) e0 by simp
  have i: "?i = int (length ?rows)" by simp
  have le: "?i \<le> n_max" using assms by simp
  note tr = trim_table [where out = ?df0 and p = ?p, OF i le refl]
  have ft: "fetch h r pc n_max =
      (Inr ((if ?i < n_max then df_resize ?out' ?i else ?out')
             \<lparr>col_attr := map (\<lambda>k. class_attr (types r' ! k))
                 [0..<length (columns (if ?i < n_max then df_resize ?out' ?i else ?out'))]\<rparr>),
       r', pc')"
    using b a assms f1 lp by (simp add: fetch_def Let_def)
  show "\<exists>df r' pc'. fetch h r pc n_max = (Inr df, r', pc')
          \<and> columns df = map (\<lambda>j. map (\<lambda>rw. rw ! j)
                                  (map (row_cells h (types r)) (take (nat n_max) us)))
                            [0..<length (types r)]
          \<and> row_names df = int (min (nat n_max) (length us))
          \<and> stream_state r' pc' (drop (nat n_max) us) t rest"
    apply (intro exI conjI)
       apply (rule ft)
    using tr apply simp
    using tr apply simp
    using fin apply simp
    done
next
  fix r0 pc0 m
  assume c: "is_complete r0 pc0 = (Inr True, r, pc) \<and> bound r \<and> active r pc"
  then obtain row where pr: "pNextRow r = Some row" and nd: "\<not> has_data row"
    by (auto simp: is_complete_def split: sum.splits prod.splits option.splits)
  from c have b: "bound r" and a: "active r pc" by simp_all
  show "\<exists>df. fetch h r pc m = (Inr df, r, pc) \<and> row_names df = 0
             \<and> (\<forall>x\<in>set (columns df). x = [])"
    by (rule fetch_complete [OF pr nd b a])
qed

theorem fetch_at_most_witness:
  "(\<exists>df r' pc'.
      fetch (ref_host 0) (sample_result True)
        (sample_connection 2 [sample_row ''1'', sample_row ''2'', sample_row ''3'',
                              unit_of PGRES_TUPLES_OK []]) 2
        = (Inr df, r', pc')
    \<and> columns df = [[INTEGER 1, INTEGER 2], [STRING_ELT NA_STRING, STRING_ELT NA_STRING],
                     [REAL (6841994429 / 4), REAL (6841994429 / 4)],
                     [STRING_ELT (CHARSXP ''x''), STRING_ELT (CHARSXP ''x'')]]
    \<and> row_names df = 2
    \<and> stream_state r' pc' [sample_row ''3''] (unit_of PGRES_TUPLES_OK []) [])
   \<and> (\<exists>df. fetch (ref_host 0)
            ((sample_result True)\<lparr>pNextRow := Some \<lparr>pRes = Some (unit_of PGRES_TUPLES_OK [])\<rparr>\<rparr>)
            (sample_connection 2 []) 2
          = (Inr df, (sample_result True)\<lparr>pNextRow := Some \<lparr>pRes = Some (unit_of PGRES_TUPLES_OK [])\<rparr>\<rparr>,
             sample_connection 2 [])
        \<and> row_names df = 0)"
proof -
  let ?us = "[sample_row ''1'', sample_row ''2'', sample_row ''3'']"
  let ?t = "unit_of PGRES_TUPLES_OK []"
  let ?r = "sample_result True" and ?pc = "sample_connection 2 (?us @ [?t])"
  let ?rc = "(sample_result True)\<lparr>pNextRow := Some \<lparr>pRes = Some ?t\<rparr>\<rparr>"
  let ?pcc = "sample_connection 2 []"
  have st: "stream_state ?r ?pc ?us ?t []"
    by (simp add: stream_state_def is_row_def is_end_def sample_row_def unit_of_def
        sample_result_def sample_connection_def sample_conn_def)
  have b: "bound ?r" and a: "active ?r ?pc" and nc: "ncols ?r = int (length (types ?r))"
    by (simp_all add: sample_result_def sample_connection_def active_def is_current_result_def)
  have dec: "list_all (decodable (ref_host 0) (types ?r)) ?us"
    by (simp add: sample_types sample_row_decodable)
  have intr: "\<not> interrupt_pending (ref_host 0)"
    by (simp add: ref_host_def)
  have two: "(0::int) \<le> 2" by simp
  note w = fetch_at_most [OF two, of "ref_host 0" ?r ?pc ?us ?t "[]"]
  have "stream_state ?r ?pc ?us ?t [] \<and> bound ?r \<and> active ?r ?pc
      \<and> ncols ?r = int (length (types ?r)) \<and> list_all (decodable (ref_host 0) (types ?r)) ?us
      \<and> \<not> interrupt_pending (ref_host 0)"
    using st b a nc dec intr by (intro conjI)
  from w [THEN conjunct2, THEN conjunct2, THEN conjunct1, THEN mp, OF this]
  obtain df r' pc' where "fetch (ref_host 0) ?r ?pc 2 = (Inr df, r', pc')"
    and "columns df = map (\<lambda>j. map (\<lambda>rw. rw ! j)
                                  (map (row_cells (ref_host 0) (types ?r)) (take (nat 2) ?us)))
                            [0..<length (types ?r)]"
    and "row_names df = int (min (nat 2) (length ?us))"
    and "stream_state r' pc' (drop (nat 2) ?us) ?t []"
    by (elim exE conjE)
  then have first: "\<exists>df r' pc'.
      fetch (ref_host 0) ?r ?pc 2 = (Inr df, r', pc')
    \<and> columns df = [[INTEGER 1, INTEGER 2], [STRING_ELT NA_STRING, STRING_ELT NA_STRING],
                     [REAL (6841994429 / 4), REAL (6841994429 / 4)],
                     [STRING_ELT (CHARSXP ''x''), STRING_ELT (CHARSXP ''x'')]]
    \<and> row_names df = 2
    \<and> stream_state r' pc' [sample_row ''3''] ?t []"
    by (intro exI [of _ df] exI [of _ r'] exI [of _ pc'])
       (simp add: sample_types sample_row_cells upt_4 ref_atoi_def decimal_def
          numeral_2_eq_2)
  have ic: "is_complete ?rc ?pcc = (Inr True, ?rc, ?pcc)"
    by (simp add: is_complete_def fetch_row_if_needed_def has_data_def status_def
        PQresultStatus_def unit_of_def)
  have bc: "bound ?rc" and ac: "active ?rc ?pcc"
    by (simp_all add: sample_result_def sample_connection_def active_def is_current_result_def)
  note wc = fetch_at_most [OF two, of "ref_host 0" ?rc ?pcc "[]" ?t "[]"]
  have "is_complete ?rc ?pcc = (Inr True, ?rc, ?pcc) \<and> bound ?rc \<and> active ?rc ?pcc"
    using ic bc ac by (intro conjI)
  from wc [THEN conjunct2, THEN conjunct2, THEN conjunct2, THEN spec, THEN spec, THEN spec,
      THEN mp, OF this]
  have "\<exists>df. fetch (ref_host 0) ?rc ?pcc 2 = (Inr df, ?rc, ?pcc)
      \<and> row_names df = 0 \<and> (\<forall>x\<in>set (columns df). x = [])" .
  then have second: "\<exists>df. fetch (ref_host 0) ?rc ?pcc 2 = (Inr df, ?rc, ?pcc) \<and> row_names df = 0"
    by blast
  from first second show ?thesis
    by simp
qed

end
